theory Spec2Isabelle
  imports Main "HOL-Library.AList" "HOL-Library.Sublist"
begin

section \<open>Strings and numbers of the source language\<close>

text \<open>
  A string is a list of 8-bit characters, read as the code points U+0000 to U+00FF.
  Characters beyond U+00FF are outside the model.
\<close>

definition toLowerChar :: "char \<Rightarrow> char" where
  \<comment> \<open>the lowercase mapping on U+0000..U+00FF: A-Z and the accented capitals
      U+00C0..U+00DE (without the multiplication sign U+00D7) move up by 32\<close>
  "toLowerChar c =
     (let n = (of_char c :: nat)
      in if (65 \<le> n \<and> n \<le> 90) \<or> (192 \<le> n \<and> n \<le> 222 \<and> n \<noteq> 215)
         then char_of (n + 32) else c)"

definition toLowerCase :: "string \<Rightarrow> string" where
  "toLowerCase s = map toLowerChar s"

definition in_name_class :: "char \<Rightarrow> bool" where
  \<comment> \<open>the character class \<^verbatim>\<open>[a-z0-9_.-]\<close>\<close>
  "in_name_class c =
     (let n = (of_char c :: nat)
      in (97 \<le> n \<and> n \<le> 122) \<or> (48 \<le> n \<and> n \<le> 57) \<or> n = 95 \<or> n = 46 \<or> n = 45)"

fun replace_outside_class :: "string \<Rightarrow> string" where
  \<comment> \<open>\<^verbatim>\<open>.replace(/[^a-z0-9_.-]/g, '')\<close>: every match of the negated class is replaced
      by the empty string\<close>
  "replace_outside_class [] = []"
| "replace_outside_class (c # cs) =
     (if in_name_class c then c # replace_outside_class cs else replace_outside_class cs)"

fun split_on :: "char \<Rightarrow> string \<Rightarrow> string list" where
  \<comment> \<open>\<^verbatim>\<open>s.split(sep)\<close> for a separator of one character\<close>
  "split_on sep [] = [[]]"
| "split_on sep (c # cs) =
     (if c = sep then [] # split_on sep cs
      else (case split_on sep cs of
              [] \<Rightarrow> [[c]]
            | x # xs \<Rightarrow> (c # x) # xs))"

definition pop :: "'a list \<Rightarrow> 'a option" where
  \<comment> \<open>\<^verbatim>\<open>xs.pop()\<close>: the last element, \<^verbatim>\<open>undefined\<close> on an empty array\<close>
  "pop xs = (if xs = [] then None else Some (last xs))"

definition fileExtensionOf :: "string \<Rightarrow> string" where
  \<comment> \<open>\<^verbatim>\<open>file.name.split('.').pop()\<close>, as the template literal renders it\<close>
  "fileExtensionOf fname =
     (case pop (split_on (CHR ''.'') fname) of
        None \<Rightarrow> ''undefined''
      | Some ext \<Rightarrow> ext)"

definition sanitizedPackageName :: "string \<Rightarrow> string" where
  "sanitizedPackageName pname = replace_outside_class (toLowerCase pname)"

definition fileNameOf :: "string \<Rightarrow> string \<Rightarrow> string \<Rightarrow> string" where
  \<comment> \<open>\<^verbatim>\<open>`${sanitizedPackageName}_v${packageVersion}.${fileExtension}`\<close>\<close>
  "fileNameOf pname version fname =
     sanitizedPackageName pname @ ''_v'' @ version @ ''.'' @ fileExtensionOf fname"

text \<open>
  Numbers: the progress value is either an integer literal or the double that
  \<^verbatim>\<open>(bytesTransferred / totalBytes) * 100\<close> computes. Binary floating point is outside
  the model, so this double is kept unevaluated as the pair of byte counts it is
  computed from, and the digits that \<^verbatim>\<open>toFixed(0)\<close> renders for it are delivered with
  the progress event.
\<close>

datatype js_number = Num nat | Percent nat nat

section \<open>Data model\<close>

datatype handle = FirestoreDb | FirebaseAuth | FirebaseStorage

record js_file =
  file_name :: string
  file_size :: nat

datatype server_value = ServerTimestamp

text \<open>The object literal handed to \<^verbatim>\<open>addDoc\<close>.\<close>

record package_doc =
  doc_name :: string
  doc_displayName :: string
  doc_description :: string
  doc_version :: string
  doc_fileName :: string
  doc_fileUrl :: string
  doc_uploaderId :: string
  doc_uploadTime :: server_value

text \<open>
  The calls the component issues to its collaborators, in the order it issues them.
\<close>

datatype io_call =
    SignInWithCustomToken string
  | SignInAnonymously
  | OnSnapshot string
  | Unsubscribe
  | UploadBytesResumable string js_file
  | GetDownloadURL string
  | AddDoc string package_doc

fun is_store_op :: "io_call \<Rightarrow> bool" where
  "is_store_op (SignInWithCustomToken _) = False"
| "is_store_op SignInAnonymously = False"
| "is_store_op _ = True"

text \<open>
  One call of \<^verbatim>\<open>handleUpload\<close> that got past its guard registers three callbacks on
  the upload task. They close over the values of the render in which the form was
  submitted; an \<open>upload_task\<close> holds these captured values and how far the callbacks
  have come.
\<close>

datatype phase = Uploading | GettingURL | Committing package_doc | Finished

record upload_task =
  t_phase :: phase
  t_file :: js_file
  t_packageName :: string
  t_packageDescription :: string
  t_packageVersion :: string
  t_userId :: string
  t_db :: "handle option"
  t_appId :: string
  t_fileName :: string

text \<open>
  The component's state: the constants of the environment, the React state variables
  with their initial values, and what lives outside React (whether the mount effect
  has run, the open subscription, the upload tasks, the calls issued so far and the
  records whose creation the store has acknowledged to this session).
\<close>

record app_state =
  appId :: string
  initialAuthToken :: "string option"
  db :: "handle option"
  auth :: "handle option"
  storage :: "handle option"
  userId :: "string option"
  isAuthReady :: bool
  packages :: "(string \<times> string) list list"
  uploading :: bool
  uploadProgress :: js_number
  uploadMessage :: string
  packageName :: string
  packageDescription :: string
  packageVersion :: string
  packageFile :: "js_file option"
  mounted :: bool
  subscribed :: bool
  tasks :: "upload_task list"
  calls :: "io_call list"
  created :: "package_doc list"

definition init_state :: "string \<Rightarrow> string option \<Rightarrow> app_state" where
  "init_state aid tok =
     \<lparr> appId = aid, initialAuthToken = tok,
       db = None, auth = None, storage = None, userId = None, isAuthReady = False,
       packages = [], uploading = False, uploadProgress = Num 0, uploadMessage = [],
       packageName = [], packageDescription = [], packageVersion = [],
       packageFile = None,
       mounted = False, subscribed = False, tasks = [], calls = [], created = [] \<rparr>"

definition packages_collection :: "string \<Rightarrow> string" where
  "packages_collection aid = ''artifacts/'' @ aid @ ''/public/data/packages''"

definition storage_path :: "string \<Rightarrow> string \<Rightarrow> string" where
  "storage_path aid fileName = ''artifacts/'' @ aid @ ''/packages/'' @ fileName"

section \<open>The publish handler\<close>

definition new_task :: "app_state \<Rightarrow> js_file \<Rightarrow> string \<Rightarrow> upload_task" where
  "new_task s f uid =
     \<lparr> t_phase = Uploading, t_file = f,
       t_packageName = packageName s,
       t_packageDescription = packageDescription s,
       t_packageVersion = packageVersion s,
       t_userId = uid, t_db = db s, t_appId = appId s,
       t_fileName = fileNameOf (packageName s) (packageVersion s) (file_name f) \<rparr>"

definition reject :: "app_state \<Rightarrow> app_state" where
  "reject s = s\<lparr>uploadMessage := ''Please fill all fields and select a file.''\<rparr>"

definition handleUpload :: "app_state \<Rightarrow> app_state" where
  \<comment> \<open>an empty string and \<^verbatim>\<open>null\<close> are both falsy in the guard; \<^verbatim>\<open>ref\<close> on a
      storage handle that is \<^verbatim>\<open>null\<close> throws, which ends the handler after its three
      state updates\<close>
  "handleUpload s =
     (case packageFile s of
        None \<Rightarrow> reject s
      | Some f \<Rightarrow>
          (case userId s of
             None \<Rightarrow> reject s
           | Some uid \<Rightarrow>
               if packageName s = [] \<or> packageDescription s = [] \<or> packageVersion s = []
                  \<or> auth s = None \<or> uid = []
               then reject s
               else
                 let s1 = s\<lparr>uploading := True, uploadMessage := ''Starting upload...'',
                            uploadProgress := Num 0\<rparr>;
                     t = new_task s f uid
                 in if storage s = None then s1
                    else s1\<lparr>calls := calls s1 @
                                [UploadBytesResumable (storage_path (appId s) (t_fileName t)) f],
                            tasks := tasks s1 @ [t]\<rparr>))"

section \<open>The callbacks of an upload task\<close>

definition set_phase :: "nat \<Rightarrow> phase \<Rightarrow> app_state \<Rightarrow> app_state" where
  "set_phase i p s = s\<lparr>tasks := (tasks s)[i := (tasks s ! i)\<lparr>t_phase := p\<rparr>]\<rparr>"

definition in_phase :: "app_state \<Rightarrow> nat \<Rightarrow> phase \<Rightarrow> bool" where
  "in_phase s i p \<longleftrightarrow> i < length (tasks s) \<and> t_phase (tasks s ! i) = p"

definition onProgress :: "nat \<Rightarrow> nat \<Rightarrow> string \<Rightarrow> app_state \<Rightarrow> app_state" where
  \<comment> \<open>\<open>shown\<close> is the text of \<^verbatim>\<open>progress.toFixed(0)\<close>\<close>
  "onProgress bytesTransferred totalBytes shown s =
     (let progress = Percent bytesTransferred totalBytes
      in s\<lparr>uploadProgress := progress,
           uploadMessage := ''Upload is '' @ shown @ ''% done''\<rparr>)"

definition onUploadError :: "nat \<Rightarrow> string \<Rightarrow> app_state \<Rightarrow> app_state" where
  "onUploadError i msg s =
     set_phase i Finished
       (s\<lparr>uploadMessage := ''Upload failed: '' @ msg, uploading := False\<rparr>)"

definition catch_finally :: "nat \<Rightarrow> string \<Rightarrow> app_state \<Rightarrow> app_state" where
  \<comment> \<open>the \<^verbatim>\<open>catch\<close> block followed by the \<^verbatim>\<open>finally\<close> block of the completion callback\<close>
  "catch_finally i msg s =
     set_phase i Finished
       (s\<lparr>uploadMessage := ''Failed to save package info: '' @ msg,
          uploading := False, uploadProgress := Num 0\<rparr>)"

definition onUploadComplete :: "nat \<Rightarrow> app_state \<Rightarrow> app_state" where
  \<comment> \<open>the completion callback up to its first \<^verbatim>\<open>await\<close>\<close>
  "onUploadComplete i s =
     (let t = tasks s ! i
      in set_phase i GettingURL
           (s\<lparr>calls := calls s @
                 [GetDownloadURL (storage_path (t_appId t) (t_fileName t))]\<rparr>))"

definition package_doc_of :: "upload_task \<Rightarrow> string \<Rightarrow> package_doc" where
  "package_doc_of t downloadURL =
     \<lparr> doc_name = toLowerCase (t_packageName t),
       doc_displayName = t_packageName t,
       doc_description = t_packageDescription t,
       doc_version = t_packageVersion t,
       doc_fileName = t_fileName t,
       doc_fileUrl = downloadURL,
       doc_uploaderId = t_userId t,
       doc_uploadTime = ServerTimestamp \<rparr>"

definition collection_null_message :: string where
  \<comment> \<open>the message of the error that \<^verbatim>\<open>collection\<close> throws for a database handle that is
      \<^verbatim>\<open>null\<close>; the text belongs to the store's library\<close>
  "collection_null_message =
     ''Expected first argument to collection() to be a CollectionReference, a DocumentReference or FirebaseFirestore''"

definition onDownloadURL :: "nat \<Rightarrow> string + string \<Rightarrow> app_state \<Rightarrow> app_state" where
  \<comment> \<open>the completion callback from the result of \<^verbatim>\<open>getDownloadURL\<close> to its second
      \<^verbatim>\<open>await\<close>\<close>
  "onDownloadURL i r s =
     (case r of
        Inl msg \<Rightarrow> catch_finally i msg s
      | Inr downloadURL \<Rightarrow>
          let t = tasks s ! i;
              s1 = s\<lparr>uploadMessage := ''Upload successful. Saving package info...''\<rparr>
          in if t_db t = None then catch_finally i collection_null_message s1
             else let d = package_doc_of t downloadURL
                  in set_phase i (Committing d)
                       (s1\<lparr>calls := calls s1 @
                              [AddDoc (packages_collection (t_appId t)) d]\<rparr>))"

definition onAddDoc :: "nat \<Rightarrow> package_doc \<Rightarrow> string + unit \<Rightarrow> app_state \<Rightarrow> app_state" where
  \<comment> \<open>the completion callback from the result of \<^verbatim>\<open>addDoc\<close> to its end; on success
      the value of the file input element is reset as well, which is outside the state\<close>
  "onAddDoc i d r s =
     (case r of
        Inl msg \<Rightarrow> catch_finally i msg s
      | Inr _ \<Rightarrow>
          set_phase i Finished
            (s\<lparr>uploadMessage :=
                 ''Package saved successfully! Your SPM program can now fetch it.'',
               packageName := [], packageDescription := [], packageVersion := [],
               packageFile := None,
               uploading := False, uploadProgress := Num 0,
               created := created s @ [d]\<rparr>))"

section \<open>Events\<close>

text \<open>
  One event is one callback that runs to completion: the mount effect, a notification
  of a collaborator, or an action of the user on the form. An event whose callback is
  not registered in the current state (an auth notification without a listener, a
  snapshot without a subscription, an upload event for a task that is in another phase)
  changes nothing. The form's inputs and its submit button carry
  \<^verbatim>\<open>disabled={!isAuthReady || uploading}\<close>; a disabled control delivers no event to
  its handler. The \<^verbatim>\<open>required\<close> attributes of the inputs are left out, so a submit with
  an empty field does reach \<open>handleUpload\<close>.
\<close>

datatype event =
    Mount "string option"
  | SignInFailed string
  | AuthStateChanged "string option" string
  | Snapshot "(string \<times> (string \<times> string) list) list"
  | SnapshotError string
  | SetPackageName string
  | SetPackageDescription string
  | SetPackageVersion string
  | FileChange "js_file option"
  | Submit
  | UploadProgress nat nat nat string
  | UploadFailed nat string
  | UploadComplete nat
  | DownloadURLResult nat "string + string"
  | AddDocResult nat "string + unit"

definition mount :: "string option \<Rightarrow> app_state \<Rightarrow> app_state" where
  \<comment> \<open>the first effect; \<open>Some msg\<close> is an exception thrown while the handles are
      obtained, before any of them is stored\<close>
  "mount err s =
     (case err of
        Some msg \<Rightarrow> s\<lparr>mounted := True, uploadMessage := ''Firebase init error: '' @ msg\<rparr>
      | None \<Rightarrow>
          s\<lparr>mounted := True,
            db := Some FirestoreDb, auth := Some FirebaseAuth,
            storage := Some FirebaseStorage,
            calls := calls s @
              [case initialAuthToken s of
                 None \<Rightarrow> SignInAnonymously
               | Some tok \<Rightarrow> if tok = [] then SignInAnonymously
                             else SignInWithCustomToken tok]\<rparr>)"

definition onAuthStateChanged :: "string option \<Rightarrow> string \<Rightarrow> app_state \<Rightarrow> app_state" where
  \<comment> \<open>\<open>uuid\<close> is what \<^verbatim>\<open>crypto.randomUUID()\<close> returns if it is called\<close>
  "onAuthStateChanged user uuid s =
     (case user of
        Some uid \<Rightarrow> s\<lparr>userId := Some uid, isAuthReady := True\<rparr>
      | None \<Rightarrow> s\<lparr>userId := Some uuid, isAuthReady := True\<rparr>)"

definition snapshot_entry :: "string \<times> (string \<times> string) list \<Rightarrow> (string \<times> string) list" where
  \<comment> \<open>\<^verbatim>\<open>{ id: doc.id, ...doc.data() }\<close>\<close>
  "snapshot_entry d =
     foldl (\<lambda>obj kv. AList.update (fst kv) (snd kv) obj) [(''id'', fst d)] (snd d)"

definition controls_disabled :: "app_state \<Rightarrow> bool" where
  "controls_disabled s \<longleftrightarrow> \<not> isAuthReady s \<or> uploading s"

fun handler :: "event \<Rightarrow> app_state \<Rightarrow> app_state" where
  "handler (Mount err) s = (if mounted s then s else mount err s)"
| "handler (SignInFailed msg) s =
     (if auth s = None then s else s\<lparr>uploadMessage := ''Auth error: '' @ msg\<rparr>)"
| "handler (AuthStateChanged user uuid) s =
     (if auth s = None then s else onAuthStateChanged user uuid s)"
| "handler (Snapshot docs) s =
     (if subscribed s then s\<lparr>packages := map snapshot_entry docs\<rparr> else s)"
| "handler (SnapshotError msg) s =
     (if subscribed s then s\<lparr>uploadMessage := ''Failed to load packages: '' @ msg\<rparr> else s)"
| "handler (SetPackageName v) s =
     (if controls_disabled s then s else s\<lparr>packageName := v\<rparr>)"
| "handler (SetPackageDescription v) s =
     (if controls_disabled s then s else s\<lparr>packageDescription := v\<rparr>)"
| "handler (SetPackageVersion v) s =
     (if controls_disabled s then s else s\<lparr>packageVersion := v\<rparr>)"
| "handler (FileChange fo) s =
     (if controls_disabled s then s
      else (case fo of None \<Rightarrow> s | Some f \<Rightarrow> s\<lparr>packageFile := Some f\<rparr>))"
| "handler Submit s = (if controls_disabled s then s else handleUpload s)"
| "handler (UploadProgress i b n shown) s =
     (if in_phase s i Uploading then onProgress b n shown s else s)"
| "handler (UploadFailed i msg) s =
     (if in_phase s i Uploading then onUploadError i msg s else s)"
| "handler (UploadComplete i) s =
     (if in_phase s i Uploading then onUploadComplete i s else s)"
| "handler (DownloadURLResult i r) s =
     (if in_phase s i GettingURL then onDownloadURL i r s else s)"
| "handler (AddDocResult i r) s =
     (if i < length (tasks s)
      then (case t_phase (tasks s ! i) of
              Committing d \<Rightarrow> onAddDoc i d r s
            | _ \<Rightarrow> s)
      else s)"

definition catalog_effect :: "app_state \<Rightarrow> app_state \<Rightarrow> app_state" where
  \<comment> \<open>the second effect, with dependencies \<^verbatim>\<open>[db, isAuthReady, appId]\<close>: when one of them
      has changed, the previous cleanup runs and the effect body after it\<close>
  "catalog_effect prev s =
     (if db prev = db s \<and> isAuthReady prev = isAuthReady s then s
      else
        let s1 = (if subscribed s
                  then s\<lparr>subscribed := False, calls := calls s @ [Unsubscribe]\<rparr>
                  else s)
        in if db s1 \<noteq> None \<and> isAuthReady s1
           then s1\<lparr>subscribed := True,
                   calls := calls s1 @ [OnSnapshot (packages_collection (appId s1))]\<rparr>
           else s1)"

definition step :: "event \<Rightarrow> app_state \<Rightarrow> app_state" where
  "step e s = catalog_effect s (handler e s)"

definition run :: "event list \<Rightarrow> app_state \<Rightarrow> app_state" where
  "run evs s = foldl (\<lambda>st e. step e st) s evs"

text \<open>
  What the environment is taken to deliver: the uid of a signed-in user and a random
  UUID are never the empty string.
\<close>

fun wf_event :: "event \<Rightarrow> bool" where
  "wf_event (AuthStateChanged (Some uid) uuid) = (uid \<noteq> [])"
| "wf_event (AuthStateChanged None uuid) = (uuid \<noteq> [])"
| "wf_event _ = True"

inductive reachable :: "app_state \<Rightarrow> bool" where
  reachable_init: "reachable (init_state aid tok)"
| reachable_step: "reachable s \<Longrightarrow> wf_event e \<Longrightarrow> reachable (step e s)"

definition active :: "app_state \<Rightarrow> nat \<Rightarrow> bool" where
  "active s i \<longleftrightarrow> i < length (tasks s) \<and> t_phase (tasks s ! i) \<noteq> Finished"

fun is_auth_notification :: "event \<Rightarrow> bool" where
  "is_auth_notification (AuthStateChanged _ _) = True"
| "is_auth_notification _ = False"

section \<open>Invariants of the reachable states\<close>

text \<open>
  What an upload task that is not finished has captured agrees with the form: the
  controls are disabled while \<open>uploading\<close> is set, so the fields cannot move away from
  the submitted values.
\<close>

definition captured :: "app_state \<Rightarrow> upload_task \<Rightarrow> bool" where
  "captured s t \<longleftrightarrow>
     t_packageName t = packageName s \<and> packageName s \<noteq> [] \<and>
     t_packageDescription t = packageDescription s \<and> packageDescription s \<noteq> [] \<and>
     t_packageVersion t = packageVersion s \<and> packageVersion s \<noteq> [] \<and>
     packageFile s = Some (t_file t) \<and>
     t_appId t = appId s \<and>
     t_db t \<noteq> None \<and>
     t_fileName t = fileNameOf (packageName s) (packageVersion s) (file_name (t_file t)) \<and>
     (\<forall>d. t_phase t = Committing d \<longrightarrow> (\<exists>url. d = package_doc_of t url))"

definition inv_env :: "app_state \<Rightarrow> bool" where
  "inv_env s \<longleftrightarrow>
     (db s = None \<longleftrightarrow> auth s = None) \<and>
     (storage s = None \<longleftrightarrow> auth s = None) \<and>
     (\<forall>u. userId s = Some u \<longrightarrow> u \<noteq> [] \<and> auth s \<noteq> None) \<and>
     (isAuthReady s \<longleftrightarrow> userId s \<noteq> None)"

definition inv_tasks :: "app_state \<Rightarrow> bool" where
  "inv_tasks s \<longleftrightarrow>
     (uploading s \<longleftrightarrow> (\<exists>i. active s i)) \<and>
     (\<forall>i j. active s i \<longrightarrow> active s j \<longrightarrow> i = j) \<and>
     (\<forall>i. active s i \<longrightarrow> captured s (tasks s ! i)) \<and>
     (uploading s \<longrightarrow> isAuthReady s)"

definition inv_calls :: "app_state \<Rightarrow> bool" where
  "inv_calls s \<longleftrightarrow>
     ((\<exists>c\<in>set (calls s). is_store_op c) \<longrightarrow> isAuthReady s) \<and>
     (subscribed s \<longrightarrow> isAuthReady s) \<and>
     (tasks s \<noteq> [] \<longrightarrow> isAuthReady s)"

section \<open>Sample sessions\<close>

definition demo_file :: js_file where
  "demo_file = \<lparr>file_name = ''demo.py'', file_size = 3\<rparr>"

definition plain_file :: js_file where
  "plain_file = \<lparr>file_name = ''demo'', file_size = 1\<rparr>"

definition state_of :: "event list \<Rightarrow> app_state" where
  "state_of evs = run evs (init_state ''default-app-id'' None)"

definition session_mounted :: "event list" where
  "session_mounted = [Mount None]"

definition session_fallback :: "event list" where
  "session_fallback = [Mount None, AuthStateChanged None ''0b9f-fallback'']"

definition session_signed_in :: "event list" where
  "session_signed_in = session_fallback @ [AuthStateChanged (Some ''user-1'') ''77aa-unused'']"

definition session_ready :: "event list" where
  "session_ready = [Mount None, AuthStateChanged (Some ''user-1'') ''0b9f-unused'']"

definition session_form_filled :: "event list" where
  "session_form_filled = session_ready @
     [SetPackageName ''MyCoolApp'', SetPackageDescription ''demo'',
      SetPackageVersion ''1.0.0'', FileChange (Some demo_file)]"

definition session_uploading :: "event list" where
  "session_uploading = session_form_filled @ [Submit]"

definition session_getting_url :: "event list" where
  "session_getting_url = session_uploading @ [UploadProgress 0 1 3 ''33'', UploadComplete 0]"

definition session_committing :: "event list" where
  "session_committing = session_getting_url @ [DownloadURLResult 0 (Inr ''https://host/f'')]"

definition session_late_sign_in :: "event list" where
  "session_late_sign_in = session_fallback @
     [SetPackageName ''MyCoolApp'', SetPackageDescription ''demo'',
      SetPackageVersion ''1.0.0'', FileChange (Some demo_file), Submit,
      AuthStateChanged (Some ''user-1'') ''77aa-unused'',
      UploadComplete 0, DownloadURLResult 0 (Inr ''https://host/f'')]"

definition state_without_identity :: app_state where
  "state_without_identity =
     (state_of session_form_filled)\<lparr>userId := None, isAuthReady := False\<rparr>"

definition session_plain_file :: "event list" where
  "session_plain_file = session_ready @
     [SetPackageName ''App'', SetPackageDescription ''d'',
      SetPackageVersion ''1'', FileChange (Some plain_file)]"

section \<open>Facts about the file name\<close>


lemma replace_outside_class_filter: "replace_outside_class cs = filter in_name_class cs"
  by (induction cs) simp_all

lemma length_split_on: "length (split_on sep s) = Suc (length (filter (\<lambda>c. c = sep) s))"
  by (induction s) (auto split: list.splits)

lemma split_on_no_sep: "sep \<notin> set s \<Longrightarrow> split_on sep s = [s]"
  by (induction s) auto

lemma split_on_tail_nonempty:
  assumes "sep \<in> set s" and "split_on sep s = x # xs"
  shows "xs \<noteq> []"
proof
  assume "xs = []"
  with assms(2) have "length (split_on sep s) = 1" by simp
  then have "filter (\<lambda>c. c = sep) s = []" by (simp add: length_split_on)
  with assms(1) show False by (auto simp add: filter_empty_conv)
qed

lemma last_split_on:
  "last (split_on sep s) = rev (takeWhile (\<lambda>c. c \<noteq> sep) (rev s))"
proof (induction s)
  case Nil
  show ?case by simp
next
  case (Cons c cs)
  show ?case
  proof (cases "sep \<in> set cs")
    case True
    obtain x xs where sp: "split_on sep cs = x # xs"
      using length_split_on [of sep cs] by (cases "split_on sep cs") simp_all
    have ne: "xs \<noteq> []" using split_on_tail_nonempty [OF True sp] .
    have "last (split_on sep (c # cs)) = last (split_on sep cs)"
      using sp ne by simp
    moreover have "takeWhile (\<lambda>c. c \<noteq> sep) (rev cs @ [c]) = takeWhile (\<lambda>c. c \<noteq> sep) (rev cs)"
      using True by (simp add: takeWhile_append1)
    ultimately show ?thesis using Cons.IH by simp
  next
    case False
    then have "takeWhile (\<lambda>c. c \<noteq> sep) (rev cs @ [c]) = rev cs @ takeWhile (\<lambda>c. c \<noteq> sep) [c]"
      using False by (intro takeWhile_append2) auto
    then show ?thesis using False by (auto simp add: split_on_no_sep)
  qed
qed

lemma fileExtensionOf_eq:
  "fileExtensionOf fname = rev (takeWhile (\<lambda>c. c \<noteq> CHR ''.'') (rev fname))"
  using length_split_on [of "CHR ''.''" fname]
  by (auto simp add: fileExtensionOf_def pop_def last_split_on)


text \<open>
  The separator \<^verbatim>\<open>_v\<close> between name and version: a string splits at it in one way
  only, unless the separator occurs again on both sides.
\<close>

lemma sublist_sep_intro: "sublist ''_v'' (ps @ ''_v'' @ ss)"
  unfolding sublist_def by blast

lemma sep_overlap:
  assumes "us @ ''_v'' @ v1 = ''_v'' @ v2"
  shows "us = [] \<or> (\<exists>ws. us = ''_v'' @ ws \<and> v2 = ws @ ''_v'' @ v1)"
proof (cases us)
  case Nil
  then show ?thesis by simp
next
  case outer: (Cons c us1)
  show ?thesis
  proof (cases us1)
    case Nil
    with outer assms show ?thesis by simp
  next
    case inner: (Cons d us2)
    from assms have "c # d # us2 @ ''_v'' @ v1 = ''_v'' @ v2"
      by (simp add: outer inner)
    then have "c = CHR ''_''" and "d = CHR ''v''" and "v2 = us2 @ ''_v'' @ v1"
      by simp_all
    then show ?thesis by (simp add: outer inner)
  qed
qed

lemma sep_unique:
  assumes eq: "s1 @ ''_v'' @ v1 = s2 @ ''_v'' @ v2"
    and free: "(\<not> sublist ''_v'' v1 \<and> \<not> sublist ''_v'' v2)
             \<or> (\<not> sublist ''_v'' s1 \<and> \<not> sublist ''_v'' s2)"
  shows "s1 = s2 \<and> v1 = v2"
proof -
  from eq obtain us where
    "(s1 = s2 @ us \<and> us @ ''_v'' @ v1 = ''_v'' @ v2)
     \<or> (s1 @ us = s2 \<and> ''_v'' @ v1 = us @ ''_v'' @ v2)"
    by (auto simp add: append_eq_append_conv2)
  then show ?thesis
  proof
    assume a: "s1 = s2 @ us \<and> us @ ''_v'' @ v1 = ''_v'' @ v2"
    have "us = []"
    proof (rule ccontr)
      assume "us \<noteq> []"
      then obtain ws where us: "us = ''_v'' @ ws" and v2: "v2 = ws @ ''_v'' @ v1"
        using a sep_overlap by blast
      have "sublist ''_v'' v2" unfolding v2 by (rule sublist_sep_intro)
      moreover have "s1 = s2 @ ''_v'' @ ws" using a us by simp
      then have "sublist ''_v'' s1" by (simp only: sublist_sep_intro)
      ultimately show False using free by blast
    qed
    then show ?thesis using a by simp
  next
    assume a: "s1 @ us = s2 \<and> ''_v'' @ v1 = us @ ''_v'' @ v2"
    then have b: "us @ ''_v'' @ v2 = ''_v'' @ v1" by simp
    have "us = []"
    proof (rule ccontr)
      assume "us \<noteq> []"
      then obtain ws where us: "us = ''_v'' @ ws" and v1: "v1 = ws @ ''_v'' @ v2"
        using b sep_overlap by blast
      have "sublist ''_v'' v1" unfolding v1 by (rule sublist_sep_intro)
      moreover have "s2 = s1 @ ''_v'' @ ws" using a us by simp
      then have "sublist ''_v'' s2" by (simp only: sublist_sep_intro)
      ultimately show False using free by blast
    qed
    then show ?thesis using a by simp
  qed
qed

section \<open>Preservation of the invariants\<close>


lemma inv_env_init: "inv_env (init_state aid tok)"
  by (simp add: inv_env_def init_state_def)

lemma catalog_effect_frame [simp]:
  "db (catalog_effect p s) = db s"
  "auth (catalog_effect p s) = auth s"
  "storage (catalog_effect p s) = storage s"
  "userId (catalog_effect p s) = userId s"
  "isAuthReady (catalog_effect p s) = isAuthReady s"
  "uploading (catalog_effect p s) = uploading s"
  "tasks (catalog_effect p s) = tasks s"
  "packageName (catalog_effect p s) = packageName s"
  "packageDescription (catalog_effect p s) = packageDescription s"
  "packageVersion (catalog_effect p s) = packageVersion s"
  "packageFile (catalog_effect p s) = packageFile s"
  "appId (catalog_effect p s) = appId s"
  "created (catalog_effect p s) = created s"
  "uploadMessage (catalog_effect p s) = uploadMessage s"
  "uploadProgress (catalog_effect p s) = uploadProgress s"
  by (simp_all add: catalog_effect_def Let_def)

lemma set_phase_frame [simp]:
  "db (set_phase i p s) = db s"
  "auth (set_phase i p s) = auth s"
  "storage (set_phase i p s) = storage s"
  "userId (set_phase i p s) = userId s"
  "isAuthReady (set_phase i p s) = isAuthReady s"
  "uploading (set_phase i p s) = uploading s"
  "packageName (set_phase i p s) = packageName s"
  "packageDescription (set_phase i p s) = packageDescription s"
  "packageVersion (set_phase i p s) = packageVersion s"
  "packageFile (set_phase i p s) = packageFile s"
  "appId (set_phase i p s) = appId s"
  "created (set_phase i p s) = created s"
  "calls (set_phase i p s) = calls s"
  "subscribed (set_phase i p s) = subscribed s"
  "uploadMessage (set_phase i p s) = uploadMessage s"
  "uploadProgress (set_phase i p s) = uploadProgress s"
  "length (tasks (set_phase i p s)) = length (tasks s)"
  by (simp_all add: set_phase_def)

lemma handleUpload_frame [simp]:
  "db (handleUpload s) = db s"
  "auth (handleUpload s) = auth s"
  "storage (handleUpload s) = storage s"
  "userId (handleUpload s) = userId s"
  "isAuthReady (handleUpload s) = isAuthReady s"
  "packageName (handleUpload s) = packageName s"
  "packageDescription (handleUpload s) = packageDescription s"
  "packageVersion (handleUpload s) = packageVersion s"
  "packageFile (handleUpload s) = packageFile s"
  "appId (handleUpload s) = appId s"
  "created (handleUpload s) = created s"
  "subscribed (handleUpload s) = subscribed s"
  by (simp_all add: handleUpload_def reject_def Let_def split: option.splits)

lemma callbacks_env_frame [simp]:
  "db (onProgress b n shown s) = db s" "auth (onProgress b n shown s) = auth s"
  "storage (onProgress b n shown s) = storage s" "userId (onProgress b n shown s) = userId s"
  "isAuthReady (onProgress b n shown s) = isAuthReady s"
  "db (onUploadError i m s) = db s" "auth (onUploadError i m s) = auth s"
  "storage (onUploadError i m s) = storage s" "userId (onUploadError i m s) = userId s"
  "isAuthReady (onUploadError i m s) = isAuthReady s"
  "db (onUploadComplete i s) = db s" "auth (onUploadComplete i s) = auth s"
  "storage (onUploadComplete i s) = storage s" "userId (onUploadComplete i s) = userId s"
  "isAuthReady (onUploadComplete i s) = isAuthReady s"
  "db (onDownloadURL i r s) = db s" "auth (onDownloadURL i r s) = auth s"
  "storage (onDownloadURL i r s) = storage s" "userId (onDownloadURL i r s) = userId s"
  "isAuthReady (onDownloadURL i r s) = isAuthReady s"
  "db (onAddDoc i d r' s) = db s" "auth (onAddDoc i d r' s) = auth s"
  "storage (onAddDoc i d r' s) = storage s" "userId (onAddDoc i d r' s) = userId s"
  "isAuthReady (onAddDoc i d r' s) = isAuthReady s"
  by (simp_all add: onProgress_def onUploadError_def onUploadComplete_def onDownloadURL_def
      onAddDoc_def catch_finally_def Let_def split: sum.splits)

lemma inv_env_handler: "inv_env s \<Longrightarrow> wf_event e \<Longrightarrow> inv_env (handler e s)"
proof (cases e)
  case (Mount err)
  then show "inv_env s \<Longrightarrow> inv_env (handler e s)"
    by (cases err) (simp_all add: inv_env_def mount_def)
next
  case (AuthStateChanged u r)
  then show "inv_env s \<Longrightarrow> wf_event e \<Longrightarrow> inv_env (handler e s)"
    by (cases u) (auto simp add: inv_env_def onAuthStateChanged_def)
next
  case (FileChange fo)
  then show "inv_env s \<Longrightarrow> inv_env (handler e s)"
    by (cases fo) (simp_all add: inv_env_def)
next
  case (AddDocResult i r)
  then show "inv_env s \<Longrightarrow> inv_env (handler e s)"
    by (simp add: inv_env_def split: phase.splits)
qed (auto simp add: inv_env_def)

lemma inv_tasks_init: "inv_tasks (init_state aid tok)"
  by (simp add: inv_tasks_def init_state_def active_def)

lemma inv_tasks_same:
  assumes "inv_tasks s" and "tasks s' = tasks s" and "uploading s' = uploading s"
    and "isAuthReady s \<longrightarrow> isAuthReady s'"
    and "uploading s \<longrightarrow> packageName s' = packageName s \<and>
         packageDescription s' = packageDescription s \<and> packageVersion s' = packageVersion s \<and>
         packageFile s' = packageFile s"
    and "appId s' = appId s"
  shows "inv_tasks s'"
proof -
  have act: "active s' i = active s i" for i
    by (simp add: active_def assms(2))
  have up: "active s i \<Longrightarrow> uploading s" for i
    using assms(1) by (auto simp add: inv_tasks_def)
  have "captured s' (tasks s' ! i)" if "active s i" for i
  proof -
    have "captured s (tasks s ! i)" using assms(1) that by (simp add: inv_tasks_def)
    then show ?thesis using assms(2,5,6) up [OF that] by (simp add: captured_def)
  qed
  then show ?thesis
    using assms(1,3,4) by (simp add: inv_tasks_def act)
qed


lemma package_doc_of_phase [simp]:
  "package_doc_of (t\<lparr>t_phase := p\<rparr>) url = package_doc_of t url"
  by (simp add: package_doc_of_def)

lemma inv_tasks_finish:
  assumes "inv_tasks s" and "active s i"
    and "tasks s' = (tasks s)[i := (tasks s ! i)\<lparr>t_phase := Finished\<rparr>]"
    and "\<not> uploading s'"
  shows "inv_tasks s'"
proof -
  have "\<not> active s' j" for j
  proof (cases "j = i")
    case True
    then show ?thesis using assms(2,3) by (simp add: active_def)
  next
    case False
    have "\<not> active s j"
      using assms(1,2) False by (auto simp add: inv_tasks_def)
    then show ?thesis using False assms(3) by (simp add: active_def)
  qed
  then show ?thesis using assms(4) by (simp add: inv_tasks_def)
qed

lemma inv_tasks_advance:
  assumes "inv_tasks s" and "active s i" and "p \<noteq> Finished"
    and "tasks s' = (tasks s)[i := (tasks s ! i)\<lparr>t_phase := p\<rparr>]"
    and "uploading s' = uploading s" and "isAuthReady s' = isAuthReady s"
    and "packageName s' = packageName s" and "packageDescription s' = packageDescription s"
    and "packageVersion s' = packageVersion s" and "packageFile s' = packageFile s"
    and "appId s' = appId s"
    and "\<forall>d. p = Committing d \<longrightarrow> (\<exists>url. d = package_doc_of (tasks s ! i) url)"
  shows "inv_tasks s'"
proof -
  have len: "i < length (tasks s)" using assms(2) by (simp add: active_def)
  have act: "active s' j = active s j" for j
  proof (cases "j = i")
    case True
    then show ?thesis using assms(2,3,4) len by (simp add: active_def)
  next
    case False
    then show ?thesis using assms(4) by (simp add: active_def)
  qed
  have cap: "captured s' (tasks s' ! j)" if "active s j" for j
  proof -
    have c: "captured s (tasks s ! j)" using assms(1) that by (simp add: inv_tasks_def)
    show ?thesis
    proof (cases "j = i")
      case True
      then show ?thesis
        using c len assms(4,7,8,9,10,11,12) by (simp add: captured_def)
    next
      case False
      then show ?thesis
        using c assms(4,7,8,9,10,11) by (simp add: captured_def)
    qed
  qed
  show ?thesis
    using assms(1,5,6) cap by (simp add: inv_tasks_def act)
qed

lemma in_phase_active: "in_phase s i p \<Longrightarrow> p \<noteq> Finished \<Longrightarrow> active s i"
  by (simp add: in_phase_def active_def)

lemma inv_tasks_submit:
  assumes "inv_tasks s" and "inv_env s"
  shows "inv_tasks (handler Submit s)"
proof (cases "controls_disabled s")
  case True
  then show ?thesis using assms(1) by simp
next
  case False
  then have nu: "\<not> uploading s" and rdy: "isAuthReady s"
    by (simp_all add: controls_disabled_def)
  have noact: "\<not> active s i" for i
    using assms(1) nu by (auto simp add: inv_tasks_def)
  show ?thesis
  proof (cases "handleUpload s = reject s")
    case True
    have "inv_tasks (reject s)"
      using assms(1) by (rule inv_tasks_same) (simp_all add: reject_def)
    then show ?thesis using True False by simp
  next
    case rej: False
    then obtain f uid where f: "packageFile s = Some f" and uid: "userId s = Some uid"
      and ok: "packageName s \<noteq> []" "packageDescription s \<noteq> []" "packageVersion s \<noteq> []"
        "auth s \<noteq> None" "uid \<noteq> []"
      by (auto simp add: handleUpload_def split: option.splits if_splits)
    have st: "storage s \<noteq> None" and dbs: "db s \<noteq> None"
      using assms(2) ok(4) by (simp_all add: inv_env_def)
    let ?s' = "handleUpload s"
    have tk: "tasks ?s' = tasks s @ [new_task s f uid]" and up: "uploading ?s'"
      using f uid ok st by (auto simp add: handleUpload_def Let_def)
    have act: "active ?s' i \<longleftrightarrow> i = length (tasks s)" for i
      using noact [of i] by (auto simp add: active_def tk nth_append new_task_def)
    have cap: "captured ?s' (tasks ?s' ! length (tasks s))"
      using f dbs ok by (simp add: tk captured_def new_task_def)
    have "inv_tasks ?s'"
      using up rdy cap by (simp add: inv_tasks_def act)
    then show ?thesis using False by simp
  qed
qed


lemma tasks_set_phase [simp]:
  "tasks (set_phase i p s) = (tasks s)[i := (tasks s ! i)\<lparr>t_phase := p\<rparr>]"
  by (simp add: set_phase_def)

lemma inv_tasks_upload_failed:
  assumes "inv_tasks s"
  shows "inv_tasks (handler (UploadFailed i msg) s)"
proof (cases "in_phase s i Uploading")
  case True
  then have "active s i" by (simp add: in_phase_active)
  with assms have "inv_tasks (onUploadError i msg s)"
    by (rule inv_tasks_finish) (simp_all add: onUploadError_def)
  then show ?thesis using True by simp
next
  case False
  then show ?thesis using assms by simp
qed

lemma inv_tasks_catch_finally:
  assumes "inv_tasks s" and "active s i" and "tasks s0 = tasks s" 
  shows "inv_tasks (catch_finally i msg s0)"
  using assms(1,2) by (rule inv_tasks_finish) (simp_all add: catch_finally_def assms(3))

lemma inv_tasks_upload_complete:
  assumes "inv_tasks s"
  shows "inv_tasks (handler (UploadComplete i) s)"
proof (cases "in_phase s i Uploading")
  case True
  then have "active s i" by (simp add: in_phase_active)
  with assms have "inv_tasks (onUploadComplete i s)"
    by (rule inv_tasks_advance [where p = GettingURL])
      (simp_all add: onUploadComplete_def Let_def)
  then show ?thesis using True by simp
next
  case False
  then show ?thesis using assms by simp
qed

lemma inv_tasks_download_url:
  assumes "inv_tasks s"
  shows "inv_tasks (handler (DownloadURLResult i r) s)"
proof (cases "in_phase s i GettingURL")
  case True
  then have act: "active s i" by (simp add: in_phase_active)
  have "inv_tasks (onDownloadURL i r s)"
  proof (cases r)
    case (Inl msg)
    then show ?thesis
      using inv_tasks_catch_finally [OF assms act, of s msg] by (simp add: onDownloadURL_def)
  next
    case (Inr url)
    show ?thesis
    proof (cases "t_db (tasks s ! i) = None")
      case True
      then show ?thesis
        using Inr inv_tasks_catch_finally [OF assms act,
            of "s\<lparr>uploadMessage := ''Upload successful. Saving package info...''\<rparr>"
               collection_null_message]
        by (simp add: onDownloadURL_def Let_def)
    next
      case False
      have "inv_tasks (set_phase i (Committing (package_doc_of (tasks s ! i) url))
              (s\<lparr>uploadMessage := ''Upload successful. Saving package info...'',
                 calls := calls s @ [AddDoc (packages_collection (t_appId (tasks s ! i)))
                                       (package_doc_of (tasks s ! i) url)]\<rparr>))"
        using assms act
        by (rule inv_tasks_advance
            [where p = "Committing (package_doc_of (tasks s ! i) url)"]) auto
      then show ?thesis using Inr False by (auto simp add: onDownloadURL_def Let_def)
    qed
  qed
  then show ?thesis using True by simp
next
  case False
  then show ?thesis using assms by simp
qed

lemma inv_tasks_add_doc:
  assumes "inv_tasks s"
  shows "inv_tasks (handler (AddDocResult i r) s)"
proof (cases "\<exists>d. in_phase s i (Committing d)")
  case True
  then obtain d where ph: "in_phase s i (Committing d)" by blast
  then have act: "active s i" by (simp add: in_phase_active)
  have "inv_tasks (onAddDoc i d r s)"
  proof (cases r)
    case (Inl msg)
    then show ?thesis
      using inv_tasks_catch_finally [OF assms act, of s msg] by (simp add: onAddDoc_def)
  next
    case (Inr u)
    have "inv_tasks (set_phase i Finished
            (s\<lparr>uploadMessage :=
                 ''Package saved successfully! Your SPM program can now fetch it.'',
               packageName := [], packageDescription := [], packageVersion := [],
               packageFile := None,
               uploading := False, uploadProgress := Num 0,
               created := created s @ [d]\<rparr>))"
      using assms act by (rule inv_tasks_finish) simp_all
    then show ?thesis using Inr by (simp add: onAddDoc_def)
  qed
  then show ?thesis using ph by (simp add: in_phase_def)
next
  case False
  then have "handler (AddDocResult i r) s = s"
    by (auto simp add: in_phase_def split: phase.splits)
  then show ?thesis using assms by simp
qed

lemma inv_tasks_handler:
  assumes "inv_tasks s" and "inv_env s"
  shows "inv_tasks (handler e s)"
proof (cases e)
  case (Mount err)
  have "inv_tasks (mount err s)"
    using assms(1) by (rule inv_tasks_same) (simp_all add: mount_def split: option.splits)
  then show ?thesis using Mount assms(1) by simp
next
  case (SignInFailed msg)
  have "inv_tasks (s\<lparr>uploadMessage := ''Auth error: '' @ msg\<rparr>)"
    using assms(1) by (rule inv_tasks_same) simp_all
  then show ?thesis using SignInFailed assms(1) by simp
next
  case (AuthStateChanged u r)
  have "inv_tasks (onAuthStateChanged u r s)"
    using assms(1)
    by (rule inv_tasks_same) (simp_all add: onAuthStateChanged_def split: option.splits)
  then show ?thesis using AuthStateChanged assms(1) by simp
next
  case (Snapshot ds)
  have "inv_tasks (s\<lparr>packages := map snapshot_entry ds\<rparr>)"
    using assms(1) by (rule inv_tasks_same) simp_all
  then show ?thesis using Snapshot assms(1) by simp
next
  case (SnapshotError msg)
  have "inv_tasks (s\<lparr>uploadMessage := ''Failed to load packages: '' @ msg\<rparr>)"
    using assms(1) by (rule inv_tasks_same) simp_all
  then show ?thesis using SnapshotError assms(1) by simp
next
  case (SetPackageName v)
  show ?thesis unfolding SetPackageName
    using assms(1) by (rule inv_tasks_same) (simp_all add: controls_disabled_def)
next
  case (SetPackageDescription v)
  show ?thesis unfolding SetPackageDescription
    using assms(1) by (rule inv_tasks_same) (simp_all add: controls_disabled_def)
next
  case (SetPackageVersion v)
  show ?thesis unfolding SetPackageVersion
    using assms(1) by (rule inv_tasks_same) (simp_all add: controls_disabled_def)
next
  case (FileChange fo)
  show ?thesis unfolding FileChange
    using assms(1)
    by (rule inv_tasks_same) (simp_all add: controls_disabled_def split: option.splits)
next
  case Submit
  then show ?thesis using inv_tasks_submit [OF assms] by simp
next
  case (UploadProgress i b n shown)
  show ?thesis unfolding UploadProgress
    using assms(1) by (rule inv_tasks_same) (simp_all add: onProgress_def Let_def)
next
  case (UploadFailed i msg)
  then show ?thesis using inv_tasks_upload_failed [OF assms(1)] by simp
next
  case (UploadComplete i)
  then show ?thesis using inv_tasks_upload_complete [OF assms(1)] by simp
next
  case (DownloadURLResult i r)
  then show ?thesis using inv_tasks_download_url [OF assms(1)] by simp
next
  case (AddDocResult i r)
  then show ?thesis using inv_tasks_add_doc [OF assms(1)] by simp
qed


lemma inv_calls_init: "inv_calls (init_state aid tok)"
  by (simp add: inv_calls_def init_state_def)

lemma handler_ready_mono: "isAuthReady s \<Longrightarrow> isAuthReady (handler e s)"
  by (cases e)
    (simp_all add: mount_def onAuthStateChanged_def onProgress_def onUploadError_def
      onUploadComplete_def Let_def split: option.splits phase.splits)

lemma inv_calls_ready: "isAuthReady s \<Longrightarrow> inv_calls s"
  by (simp add: inv_calls_def)

lemma inv_calls_handler:
  assumes "inv_calls s" and "inv_env s"
  shows "inv_calls (handler e s)"
proof (cases "isAuthReady s")
  case True
  then show ?thesis by (intro inv_calls_ready handler_ready_mono)
next
  case False
  then have nocalls: "\<forall>c\<in>set (calls s). \<not> is_store_op c" and nosub: "\<not> subscribed s"
    and notasks: "tasks s = []" and nouid: "userId s = None"
    using assms by (auto simp add: inv_calls_def inv_env_def)
  show ?thesis
  proof (cases e)
    case (Mount err)
    then show ?thesis using assms(1) nocalls nosub notasks False
      by (auto simp add: inv_calls_def mount_def split: option.splits)
  next
    case (AuthStateChanged u r)
    then show ?thesis using assms(1)
      by (auto simp add: inv_calls_def onAuthStateChanged_def split: option.splits)
  next
    case Submit
    then show ?thesis using assms(1) False by (simp add: controls_disabled_def)
  next
    case (AddDocResult i r)
    then show ?thesis using assms(1) notasks by simp
  qed (use assms(1) False nosub notasks in \<open>auto simp add: inv_calls_def controls_disabled_def in_phase_def\<close>)
qed

lemma inv_calls_catalog_effect: "inv_calls s \<Longrightarrow> inv_calls (catalog_effect p s)"
  by (auto simp add: inv_calls_def catalog_effect_def Let_def)

lemma inv_env_catalog_effect: "inv_env s \<Longrightarrow> inv_env (catalog_effect p s)"
  by (simp add: inv_env_def)

lemma inv_tasks_catalog_effect: "inv_tasks s \<Longrightarrow> inv_tasks (catalog_effect p s)"
  by (rule inv_tasks_same) simp_all

lemma reachable_inv: "reachable s \<Longrightarrow> inv_env s \<and> inv_tasks s \<and> inv_calls s"
proof (induction rule: reachable.induct)
  case (reachable_init aid tok)
  show ?case by (simp add: inv_env_init inv_tasks_init inv_calls_init)
next
  case (reachable_step s e)
  then show ?case
    by (simp add: step_def inv_env_catalog_effect inv_env_handler
        inv_tasks_catalog_effect inv_tasks_handler
        inv_calls_catalog_effect inv_calls_handler)
qed

lemma run_snoc: "run (evs @ [e]) s = step e (run evs s)"
  by (simp add: run_def)

lemma reachable_run:
  "list_all wf_event evs \<Longrightarrow> reachable (run evs (init_state aid tok))"
proof (induction evs rule: rev_induct)
  case Nil
  show ?case by (simp add: run_def reachable_init)
next
  case (snoc e evs)
  then show ?case by (simp add: run_snoc reachable_step)
qed


section \<open>The destination file name\<close>

text \<open>
  C5. The destination file name is the lowercased package name with every character
  outside \<^verbatim>\<open>[a-z0-9_.-]\<close> removed, then \<^verbatim>\<open>_v\<close>, the version, a dot and the extension
  of the file, which is what follows the last dot of the file's name. For the name
  MyCoolApp, the version 1.0.0 and the file demo.py it is mycoolapp_v1.0.0.py.
\<close>

theorem fileName_deterministic:
  "fileNameOf pname version fname =
     filter in_name_class (map toLowerChar pname) @ ''_v'' @ version @ ''.'' @
       rev (takeWhile (\<lambda>c. c \<noteq> CHR ''.'') (rev fname))
   \<and> fileNameOf ''MyCoolApp'' ''1.0.0'' ''demo.py'' = ''mycoolapp_v1.0.0.py''"
proof
  show "fileNameOf pname version fname =
     filter in_name_class (map toLowerChar pname) @ ''_v'' @ version @ ''.'' @
       rev (takeWhile (\<lambda>c. c \<noteq> CHR ''.'') (rev fname))"
    by (simp add: fileNameOf_def sanitizedPackageName_def toLowerCase_def
        replace_outside_class_filter fileExtensionOf_eq)
  show "fileNameOf ''MyCoolApp'' ''1.0.0'' ''demo.py'' = ''mycoolapp_v1.0.0.py''"
    by code_simp
qed

theorem fileName_deterministic_witness:
  "fileNameOf ''My App!'' ''2.0'' ''pkg.tar.gz'' = ''myapp_v2.0.gz''"
proof -
  have "filter in_name_class (map toLowerChar ''My App!'') @ ''_v'' @ ''2.0'' @ ''.'' @
       rev (takeWhile (\<lambda>c. c \<noteq> CHR ''.'') (rev ''pkg.tar.gz'')) = ''myapp_v2.0.gz''"
    by code_simp
  then show ?thesis
    by (simp only: conjunct1 [OF fileName_deterministic])
qed

text \<open>
  C6, as the code has it. Package names that differ only in letter case or in removed
  characters give the same file name, so the file name does not separate all
  (name, version) pairs. The separator \<^verbatim>\<open>_v\<close> is not escaped either: the name a_v1 at
  version 2 and the name a at version 1_v2 give the same file name.
\<close>

theorem fileName_collision:
  "(''MyApp'', ''1.0'') \<noteq> (''my app'', ''1.0'')
   \<and> fileExtensionOf ''a.py'' = fileExtensionOf ''b.py''
   \<and> fileNameOf ''MyApp'' ''1.0'' ''a.py'' = fileNameOf ''my app'' ''1.0'' ''b.py''
   \<and> (sanitizedPackageName ''a_v1'', ''2'') \<noteq> (sanitizedPackageName ''a'', ''1_v2'')
   \<and> fileNameOf ''a_v1'' ''2'' ''a.py'' = fileNameOf ''a'' ''1_v2'' ''b.py''"
  by code_simp

text \<open>
  C6, amended. The file name is unique per pair of sanitized name (lowercased,
  characters outside the class removed) and version: for two publishes with the same
  file extension the file names differ exactly when these pairs differ, in each of the
  following cases: the versions are equal, the sanitized names are equal, neither
  version contains \<^verbatim>\<open>_v\<close>, or neither sanitized name contains \<^verbatim>\<open>_v\<close>. Nothing is
  said about pairs in which \<^verbatim>\<open>_v\<close> occurs both in a sanitized name and in a version.
\<close>

theorem fileName_unique_per_sanitized:
  "fileExtensionOf f1 = fileExtensionOf f2 \<Longrightarrow>
   v1 = v2 \<or> sanitizedPackageName n1 = sanitizedPackageName n2
     \<or> (\<not> sublist ''_v'' v1 \<and> \<not> sublist ''_v'' v2)
     \<or> (\<not> sublist ''_v'' (sanitizedPackageName n1)
          \<and> \<not> sublist ''_v'' (sanitizedPackageName n2)) \<Longrightarrow>
   fileNameOf n1 v1 f1 \<noteq> fileNameOf n2 v2 f2
     \<longleftrightarrow> (sanitizedPackageName n1, v1) \<noteq> (sanitizedPackageName n2, v2)"
proof -
  assume ext: "fileExtensionOf f1 = fileExtensionOf f2"
    and cases: "v1 = v2 \<or> sanitizedPackageName n1 = sanitizedPackageName n2
     \<or> (\<not> sublist ''_v'' v1 \<and> \<not> sublist ''_v'' v2)
     \<or> (\<not> sublist ''_v'' (sanitizedPackageName n1)
          \<and> \<not> sublist ''_v'' (sanitizedPackageName n2))"
  let ?a = "sanitizedPackageName n1" and ?b = "sanitizedPackageName n2"
  have eq: "fileNameOf n1 v1 f1 = fileNameOf n2 v2 f2
      \<longleftrightarrow> ?a @ ''_v'' @ v1 = ?b @ ''_v'' @ v2"
  proof -
    have "fileNameOf n1 v1 f1 = (?a @ ''_v'' @ v1) @ ''.'' @ fileExtensionOf f2"
      by (simp add: fileNameOf_def ext)
    moreover have "fileNameOf n2 v2 f2 = (?b @ ''_v'' @ v2) @ ''.'' @ fileExtensionOf f2"
      by (simp add: fileNameOf_def)
    ultimately show ?thesis by (simp only: append_same_eq)
  qed
  have "?a = ?b \<and> v1 = v2" if h: "?a @ ''_v'' @ v1 = ?b @ ''_v'' @ v2"
  proof -
    consider "v1 = v2" | "?a = ?b"
      | "(\<not> sublist ''_v'' v1 \<and> \<not> sublist ''_v'' v2)
         \<or> (\<not> sublist ''_v'' ?a \<and> \<not> sublist ''_v'' ?b)"
      using cases by blast
    then show ?thesis
    proof cases
      case 1
      then show ?thesis using h by simp
    next
      case 2
      then show ?thesis using h by simp
    next
      case 3
      show ?thesis using h 3 by (rule sep_unique)
    qed
  qed
  then show ?thesis using eq by auto
qed

theorem fileName_unique_per_sanitized_witness:
  "fileExtensionOf ''a.py'' = fileExtensionOf ''b.py''
   \<and> \<not> sublist ''_v'' ''1.0'' \<and> \<not> sublist ''_v'' ''1.1''
   \<and> (sanitizedPackageName ''Foo'', ''1.0'') \<noteq> (sanitizedPackageName ''f o o'', ''1.1'')
   \<and> fileNameOf ''Foo'' ''1.0'' ''a.py'' \<noteq> fileNameOf ''f o o'' ''1.1'' ''b.py''
   \<and> (sanitizedPackageName ''Foo'', ''1.0'') \<noteq> (sanitizedPackageName ''Bar'', ''1.0'')
   \<and> fileNameOf ''Foo'' ''1.0'' ''a.py'' \<noteq> fileNameOf ''Bar'' ''1.0'' ''b.py''"
proof -
  have ext: "fileExtensionOf ''a.py'' = fileExtensionOf ''b.py''" by code_simp
  have nv: "\<not> sublist ''_v'' ''1.0''" "\<not> sublist ''_v'' ''1.1''" by code_simp+
  have p1: "(sanitizedPackageName ''Foo'', ''1.0'') \<noteq> (sanitizedPackageName ''f o o'', ''1.1'')"
    by simp
  have p2: "(sanitizedPackageName ''Foo'', ''1.0'') \<noteq> (sanitizedPackageName ''Bar'', ''1.0'')"
    by code_simp
  have a: "fileNameOf ''Foo'' ''1.0'' ''a.py'' \<noteq> fileNameOf ''f o o'' ''1.1'' ''b.py''"
    using fileName_unique_per_sanitized [OF ext, of "''1.0''" "''1.1''" "''Foo''" "''f o o''"]
      nv p1 by blast
  have b: "fileNameOf ''Foo'' ''1.0'' ''a.py'' \<noteq> fileNameOf ''Bar'' ''1.0'' ''b.py''"
    using fileName_unique_per_sanitized [OF ext, of "''1.0''" "''1.0''" "''Foo''" "''Bar''"]
      p2 by blast
  show ?thesis using ext nv p1 p2 a b by blast
qed

section \<open>Steps and sample sessions\<close>

lemma catalog_effect_same:
  "db p = db s \<Longrightarrow> isAuthReady p = isAuthReady s \<Longrightarrow> catalog_effect p s = s"
  by (simp add: catalog_effect_def)

lemma step_id: "handler e s = s \<Longrightarrow> step e s = s"
  by (simp add: step_def catalog_effect_same)

lemma reachable_state_of: "list_all wf_event evs \<Longrightarrow> reachable (state_of evs)"
  by (simp add: state_of_def reachable_run)

lemma reachable_uploading: "reachable (state_of session_uploading)"
  by (rule reachable_state_of) code_simp

lemma reachable_form_filled: "reachable (state_of session_form_filled)"
  by (rule reachable_state_of) code_simp

section \<open>Exclusivity of the publish transaction\<close>

text \<open>
  C1, as the code has it. \<open>handleUpload\<close> does not look at the \<open>uploading\<close> flag: called
  in a state where an upload is in flight and the form is still filled, it starts a
  second upload next to the first.
\<close>

theorem handleUpload_not_exclusive:
  "active (state_of session_uploading) 0
   \<and> uploading (state_of session_uploading)
   \<and> calls (handleUpload (state_of session_uploading)) =
       calls (state_of session_uploading) @
         [UploadBytesResumable ''artifacts/default-app-id/packages/mycoolapp_v1.0.0.py''
            demo_file]
   \<and> active (handleUpload (state_of session_uploading)) 0
   \<and> active (handleUpload (state_of session_uploading)) 1"
  by code_simp

text \<open>
  C1, amended. In every state the session can reach at most one publish transaction is
  in flight, and while one is in flight a submit of the form changes nothing: the
  submit button is disabled as long as \<open>uploading\<close> is set, so \<open>handleUpload\<close> is not
  called, no upload is started, no write is issued and the transaction in flight is left
  as it is.
\<close>

theorem submit_exclusive:
  "reachable s \<Longrightarrow>
     (\<forall>i j. active s i \<longrightarrow> active s j \<longrightarrow> i = j)
   \<and> (\<forall>i. active s i \<longrightarrow> step Submit s = s)"
proof -
  assume "reachable s"
  then have it: "inv_tasks s" by (simp add: reachable_inv)
  have "step Submit s = s" if "active s i" for i
  proof -
    have "uploading s" using it that by (auto simp add: inv_tasks_def)
    then have "handler Submit s = s" by (simp add: controls_disabled_def)
    then show ?thesis by (rule step_id)
  qed
  moreover have "\<forall>i j. active s i \<longrightarrow> active s j \<longrightarrow> i = j"
    using it by (simp add: inv_tasks_def)
  ultimately show ?thesis by blast
qed

theorem submit_exclusive_witness:
  "reachable (state_of session_uploading)
   \<and> active (state_of session_uploading) 0
   \<and> step Submit (state_of session_uploading) = state_of session_uploading"
proof -
  have a: "active (state_of session_uploading) 0" by code_simp
  show ?thesis
    using submit_exclusive [OF reachable_uploading] a reachable_uploading by blast
qed

section \<open>Readiness gating\<close>

lemma handler_no_store_op:
  assumes "inv_env s" and "inv_calls s" and "\<not> isAuthReady s"
  shows "\<forall>c\<in>set (calls (handler e s)). \<not> is_store_op c"
proof -
  have nocalls: "\<forall>c\<in>set (calls s). \<not> is_store_op c" and nosub: "\<not> subscribed s"
    and notasks: "tasks s = []"
    using assms by (auto simp add: inv_calls_def)
  show ?thesis
  proof (cases e)
    case (Mount err)
    then show ?thesis using nocalls
      by (auto simp add: mount_def split: option.splits)
  next
    case (AuthStateChanged u r)
    then show ?thesis using nocalls
      by (auto simp add: onAuthStateChanged_def split: option.splits)
  next
    case Submit
    then show ?thesis using nocalls assms(3) by (simp add: controls_disabled_def)
  next
    case (AddDocResult i r)
    then show ?thesis using nocalls notasks by simp
  qed (use nocalls assms(3) nosub notasks in
        \<open>auto simp add: controls_disabled_def in_phase_def\<close>)
qed

text \<open>
  C2. As long as the readiness flag \<open>isAuthReady\<close> is not set, no store operation has
  been issued: neither the catalog subscription, nor an upload, nor a download-URL
  request, nor a metadata write. The handler of an event that arrives before readiness
  issues none either; the subscription is opened by the effect that runs once the flag
  is set.
\<close>

theorem readiness_gating:
  "reachable s \<Longrightarrow> \<not> isAuthReady s \<Longrightarrow>
     (\<forall>c\<in>set (calls s). \<not> is_store_op c)
   \<and> (\<forall>c\<in>set (calls (handler e s)). \<not> is_store_op c)"
proof -
  assume r: "reachable s" and n: "\<not> isAuthReady s"
  from r have ie: "inv_env s" and ic: "inv_calls s" by (simp_all add: reachable_inv)
  from ic n have "\<forall>c\<in>set (calls s). \<not> is_store_op c"
    by (auto simp add: inv_calls_def)
  moreover have "\<forall>c\<in>set (calls (handler e s)). \<not> is_store_op c"
    using ie ic n by (rule handler_no_store_op)
  ultimately show ?thesis by blast
qed

theorem readiness_gating_witness:
  "reachable (state_of session_mounted)
   \<and> \<not> isAuthReady (state_of session_mounted)
   \<and> calls (state_of session_mounted) = [SignInAnonymously]
   \<and> filter is_store_op (calls (state_of session_mounted)) = []
   \<and> filter is_store_op (calls (handler Submit (state_of session_mounted))) = []
   \<and> calls (state_of session_ready) =
       [SignInAnonymously, OnSnapshot ''artifacts/default-app-id/public/data/packages'']"
proof -
  have r: "reachable (state_of session_mounted)"
    by (rule reachable_state_of) code_simp
  have n: "\<not> isAuthReady (state_of session_mounted)" by code_simp
  have c: "calls (state_of session_mounted) = [SignInAnonymously]" by code_simp
  have d: "calls (state_of session_ready) =
       [SignInAnonymously, OnSnapshot ''artifacts/default-app-id/public/data/packages'']"
    by code_simp
  have "filter is_store_op (calls (state_of session_mounted)) = []
     \<and> filter is_store_op (calls (handler Submit (state_of session_mounted))) = []"
    using readiness_gating [OF r n, of Submit] by (simp only: filter_empty_conv)
  then show ?thesis
    using r n c d by blast
qed

section \<open>Validation\<close>

text \<open>
  C4. \<open>handleUpload\<close> rejects, that is, it only sets the message asking to fill all
  fields and issues no call, exactly when the file is absent, or the name, the
  description or the version is empty, or one of the auth handle, the user id, the
  database handle and the storage handle is not initialized. Otherwise it starts the
  upload. This holds in every reachable state and, more generally, in every state in
  which the three handles are set together and a user id that is present is not empty
  and comes with the auth handle, whatever the form holds.
\<close>

theorem handleUpload_rejects_iff:
  "reachable s \<or> inv_env s \<Longrightarrow>
     (handleUpload s = s\<lparr>uploadMessage := ''Please fill all fields and select a file.''\<rparr>
        \<longleftrightarrow> packageFile s = None \<or> packageName s = [] \<or> packageDescription s = []
            \<or> packageVersion s = [] \<or> auth s = None \<or> userId s = None
            \<or> db s = None \<or> storage s = None)
   \<and> (handleUpload s \<noteq> s\<lparr>uploadMessage := ''Please fill all fields and select a file.''\<rparr>
        \<longrightarrow> (\<exists>f. packageFile s = Some f
               \<and> calls (handleUpload s) = calls s @
                   [UploadBytesResumable
                      (storage_path (appId s)
                         (fileNameOf (packageName s) (packageVersion s) (file_name f))) f]))"
proof -
  assume "reachable s \<or> inv_env s"
  then have ie: "inv_env s" using reachable_inv by blast
  let ?cond = "packageFile s = None \<or> packageName s = [] \<or> packageDescription s = []
            \<or> packageVersion s = [] \<or> auth s = None \<or> userId s = None
            \<or> db s = None \<or> storage s = None"
  have rej: "handleUpload s = reject s" if "?cond"
    using that ie
    by (auto simp add: handleUpload_def inv_env_def split: option.splits)
  have acc: "\<exists>f. packageFile s = Some f
               \<and> uploadMessage (handleUpload s) = ''Starting upload...''
               \<and> calls (handleUpload s) = calls s @
                   [UploadBytesResumable
                      (storage_path (appId s)
                         (fileNameOf (packageName s) (packageVersion s) (file_name f))) f]"
    if "\<not> ?cond"
  proof -
    from that obtain f uid where f: "packageFile s = Some f" and u: "userId s = Some uid"
      by auto
    have "uid \<noteq> []" using ie u by (simp add: inv_env_def)
    then show ?thesis
      using that f u by (auto simp add: handleUpload_def Let_def new_task_def)
  qed
  have ne: "handleUpload s \<noteq> reject s" if "\<not> ?cond"
  proof
    assume "handleUpload s = reject s"
    then have "uploadMessage (handleUpload s) = uploadMessage (reject s)" by simp
    then show False using acc [OF that] by (simp add: reject_def)
  qed
  show ?thesis
  proof (cases ?cond)
    case True
    then show ?thesis using rej [OF True] by (simp add: reject_def)
  next
    case False
    then show ?thesis using ne [OF False] acc [OF False] by (auto simp add: reject_def)
  qed
qed

theorem handleUpload_rejects_iff_witness:
  "reachable (state_of session_form_filled)
   \<and> handleUpload (state_of session_form_filled) \<noteq>
       (state_of session_form_filled)
         \<lparr>uploadMessage := ''Please fill all fields and select a file.''\<rparr>
   \<and> calls (handleUpload (state_of session_form_filled)) =
       calls (state_of session_form_filled) @
         [UploadBytesResumable ''artifacts/default-app-id/packages/mycoolapp_v1.0.0.py''
            demo_file]
   \<and> handleUpload (state_of session_ready) =
       (state_of session_ready)
         \<lparr>uploadMessage := ''Please fill all fields and select a file.''\<rparr>
   \<and> inv_env state_without_identity
   \<and> packageName state_without_identity = ''MyCoolApp''
   \<and> packageFile state_without_identity = Some demo_file
   \<and> handleUpload state_without_identity =
       state_without_identity
         \<lparr>uploadMessage := ''Please fill all fields and select a file.''\<rparr>"
proof -
  let ?f = "state_of session_form_filled"
  have r1: "reachable (state_of session_ready)"
    by (rule reachable_state_of) code_simp
  have e: "packageName (state_of session_ready) = []" by code_simp
  have n: "\<not> (packageFile ?f = None
      \<or> packageName ?f = []
      \<or> packageDescription ?f = []
      \<or> packageVersion ?f = []
      \<or> auth ?f = None
      \<or> userId ?f = None
      \<or> db ?f = None
      \<or> storage ?f = None)"
    by code_simp
  have c: "calls (handleUpload ?f) =
       calls ?f @
         [UploadBytesResumable ''artifacts/default-app-id/packages/mycoolapp_v1.0.0.py''
            demo_file]"
    by code_simp
  have h: "db ?f = Some FirestoreDb" "auth ?f = Some FirebaseAuth"
    "storage ?f = Some FirebaseStorage" "packageName ?f = ''MyCoolApp''"
    "packageFile ?f = Some demo_file"
    by code_simp+
  have ie: "inv_env state_without_identity"
    by (simp add: inv_env_def state_without_identity_def h)
  have u: "userId state_without_identity = None"
    by (simp add: state_without_identity_def)
  have v: "packageName state_without_identity = ''MyCoolApp''"
    "packageFile state_without_identity = Some demo_file"
    by (simp_all add: state_without_identity_def h)
  have w: "handleUpload state_without_identity =
       state_without_identity
         \<lparr>uploadMessage := ''Please fill all fields and select a file.''\<rparr>"
    using handleUpload_rejects_iff [of state_without_identity] ie u by blast
  have x: "handleUpload ?f \<noteq>
       ?f\<lparr>uploadMessage := ''Please fill all fields and select a file.''\<rparr>"
    using handleUpload_rejects_iff [of ?f] reachable_form_filled n by blast
  have y: "handleUpload (state_of session_ready) =
       (state_of session_ready)
         \<lparr>uploadMessage := ''Please fill all fields and select a file.''\<rparr>"
    using handleUpload_rejects_iff [of "state_of session_ready"] r1 e by blast
  show ?thesis
    using reachable_form_filled x c y ie v w by blast
qed

section \<open>Identity\<close>

lemma handler_userId:
  "\<not> is_auth_notification e \<Longrightarrow> userId (handler e s) = userId s"
  by (cases e)
    (simp_all add: mount_def onProgress_def onUploadError_def onUploadComplete_def
      Let_def split: option.splits phase.splits)

lemma run_ready_mono: "isAuthReady s \<Longrightarrow> isAuthReady (run evs s)"
  by (induction evs rule: rev_induct) (simp_all add: run_def step_def handler_ready_mono)

lemma run_userId:
  "\<forall>e\<in>set evs. \<not> is_auth_notification e \<Longrightarrow> userId (run evs s) = userId s"
  by (induction evs rule: rev_induct) (simp_all add: run_def step_def handler_userId)

lemma submit_new_task:
  assumes "tasks (step Submit s) = tasks s @ [t]"
  shows "\<exists>f uid. packageFile s = Some f \<and> userId s = Some uid \<and> t = new_task s f uid"
proof -
  have "tasks (handleUpload s) = tasks s @ [t]"
    using assms by (simp add: step_def split: if_splits)
  then show ?thesis
    by (auto simp add: handleUpload_def reject_def Let_def split: option.splits if_splits)
qed

text \<open>
  C3, as the code has it. The callback registered with \<^verbatim>\<open>onAuthStateChanged\<close> sets the
  user id every time it is called. When the auth collaborator first reports no user and
  then the signed-in user, the session is ready with a random fallback id and the id is
  replaced afterwards.
\<close>

theorem identity_overwritten:
  "list_all wf_event session_signed_in
   \<and> isAuthReady (state_of session_fallback)
   \<and> userId (state_of session_fallback) = Some ''0b9f-fallback''
   \<and> userId (state_of session_signed_in) = Some ''user-1''"
  by code_simp

text \<open>
  C3, amended. The readiness flag, once set, stays set, and in a reachable state it is
  set exactly when a user id is present. Every auth-state notification that arrives
  after a successful initialisation sets the flag and sets the user id to the uid it
  carries, or to a freshly generated random id when it carries no user, also when the
  session already has a user id; events other than auth-state notifications leave the
  user id as it is. A publish captures the user id that is present when the form is
  submitted.
\<close>

theorem identity_set_by_notifications:
  "(isAuthReady s \<longrightarrow> isAuthReady (run evs s))
   \<and> ((\<forall>e\<in>set evs. \<not> is_auth_notification e) \<longrightarrow> userId (run evs s) = userId s)
   \<and> (auth s \<noteq> None \<longrightarrow>
        isAuthReady (step (AuthStateChanged user uuid) s)
        \<and> userId (step (AuthStateChanged user uuid) s) =
            Some (case user of Some uid \<Rightarrow> uid | None \<Rightarrow> uuid))
   \<and> (reachable s \<longrightarrow> (isAuthReady s \<longleftrightarrow> userId s \<noteq> None))
   \<and> (\<forall>t. tasks (step Submit s) = tasks s @ [t] \<longrightarrow> userId s = Some (t_userId t))"
proof (intro conjI impI allI)
  show "isAuthReady s \<Longrightarrow> isAuthReady (run evs s)"
    by (rule run_ready_mono)
  show "\<forall>e\<in>set evs. \<not> is_auth_notification e \<Longrightarrow> userId (run evs s) = userId s"
    by (rule run_userId)
  show "auth s \<noteq> None \<Longrightarrow> isAuthReady (step (AuthStateChanged user uuid) s)"
    by (cases user) (auto simp add: step_def onAuthStateChanged_def)
  show "auth s \<noteq> None \<Longrightarrow> userId (step (AuthStateChanged user uuid) s) =
            Some (case user of Some uid \<Rightarrow> uid | None \<Rightarrow> uuid)"
    by (cases user) (auto simp add: step_def onAuthStateChanged_def)
  show "reachable s \<Longrightarrow> isAuthReady s \<longleftrightarrow> userId s \<noteq> None"
    using reachable_inv [of s] by (simp add: inv_env_def)
  show "tasks (step Submit s) = tasks s @ [t] \<Longrightarrow> userId s = Some (t_userId t)" for t
    using submit_new_task [of s t] by (auto simp add: new_task_def)
qed

theorem identity_set_by_notifications_witness:
  "reachable (state_of session_form_filled)
   \<and> isAuthReady (state_of session_form_filled)
   \<and> isAuthReady (run [Submit, UploadProgress 0 1 3 ''33''] (state_of session_form_filled))
   \<and> userId (run [Submit, UploadProgress 0 1 3 ''33''] (state_of session_form_filled)) =
       Some ''user-1''
   \<and> userId (step (AuthStateChanged None ''5c1e-new'') (state_of session_form_filled)) =
       Some ''5c1e-new''
   \<and> t_userId (last (tasks (step Submit (state_of session_form_filled)))) = ''user-1''"
proof -
  let ?s = "state_of session_form_filled"
  let ?t = "last (tasks (step Submit ?s))"
  note inst = identity_set_by_notifications
    [of ?s "[Submit, UploadProgress 0 1 3 ''33'']" None "''5c1e-new''"]
  have rdy: "isAuthReady ?s" by code_simp
  have noauth: "\<forall>e\<in>set [Submit, UploadProgress 0 1 3 ''33'']. \<not> is_auth_notification e"
    by simp
  have au: "auth ?s \<noteq> None" by code_simp
  have uid: "userId ?s = Some ''user-1''" by code_simp
  have tk: "tasks (step Submit ?s) = tasks ?s @ [?t]" by code_simp
  have "userId ?s = Some (t_userId ?t)" using inst tk by blast
  then have a: "t_userId ?t = ''user-1''" using uid by simp
  have b: "userId (run [Submit, UploadProgress 0 1 3 ''33''] ?s) = Some ''user-1''"
    using inst noauth uid by simp
  have c: "isAuthReady (run [Submit, UploadProgress 0 1 3 ''33''] ?s)" using inst rdy by blast
  have d: "userId (step (AuthStateChanged None ''5c1e-new'') ?s) = Some ''5c1e-new''"
    using inst au by simp
  show ?thesis using reachable_form_filled rdy a b c d by blast
qed

section \<open>Terminal events of an upload task\<close>

lemma step_handler:
  "db (handler e s) = db s \<Longrightarrow> isAuthReady (handler e s) = isAuthReady s \<Longrightarrow>
   step e s = handler e s"
  by (simp add: step_def catalog_effect_same)

lemma in_phase_set_phase:
  "i < length (tasks s) \<Longrightarrow> in_phase (set_phase i p s) i p"
  by (simp add: in_phase_def)

lemma finished_task_events:
  assumes "in_phase s i Finished"
  shows "step (UploadProgress i b n shown) s = s" and "step (UploadFailed i m) s = s"
    and "step (UploadComplete i) s = s" and "step (DownloadURLResult i r) s = s"
    and "step (AddDocResult i r') s = s"
  using assms by (simp_all add: step_id in_phase_def)

lemma reachable_active:
  assumes "reachable s" and "in_phase s i p" and "p \<noteq> Finished"
  shows "captured s (tasks s ! i)" and "uploading s" and "isAuthReady s"
    and "i < length (tasks s)"
proof -
  have it: "inv_tasks s" using assms(1) by (simp add: reachable_inv)
  have act: "active s i" using assms(2,3) by (rule in_phase_active)
  show "captured s (tasks s ! i)" using it act by (simp add: inv_tasks_def)
  show up: "uploading s" using it act by (auto simp add: inv_tasks_def)
  show "isAuthReady s" using it up by (simp add: inv_tasks_def)
  show "i < length (tasks s)" using assms(2) by (simp add: in_phase_def)
qed

text \<open>
  C8. When the uploader reports a failure for a task that is uploading, the transaction
  ends there: no call is issued and no record is created by the step, the task is
  finished and every later event for it is ignored, so no metadata write can follow. The
  four form fields keep their values, which are the values captured at submission, and
  the controls are enabled again for a resubmission.
\<close>

theorem upload_failure_preserves_form:
  "reachable s \<Longrightarrow> in_phase s i Uploading \<Longrightarrow>
     (let t = tasks s ! i; s' = step (UploadFailed i msg) s
      in calls s' = calls s \<and> created s' = created s
         \<and> in_phase s' i Finished \<and> \<not> uploading s'
         \<and> uploadMessage s' = ''Upload failed: '' @ msg
         \<and> packageName s' = packageName s \<and> packageName s' = t_packageName t
         \<and> packageDescription s' = packageDescription s
         \<and> packageDescription s' = t_packageDescription t
         \<and> packageVersion s' = packageVersion s \<and> packageVersion s' = t_packageVersion t
         \<and> packageFile s' = packageFile s \<and> packageFile s' = Some (t_file t)
         \<and> \<not> controls_disabled s'
         \<and> step (UploadComplete i) s' = s'
         \<and> (\<forall>r. step (DownloadURLResult i r) s' = s')
         \<and> (\<forall>r. step (AddDocResult i r) s' = s'))"
proof -
  assume r: "reachable s" and ph: "in_phase s i Uploading"
  have cap: "captured s (tasks s ! i)" and rdy: "isAuthReady s"
    and len: "i < length (tasks s)"
    using reachable_active [OF r ph] by simp_all
  have st: "step (UploadFailed i msg) s = onUploadError i msg s"
    using ph by (simp add: step_handler)
  have fin: "in_phase (onUploadError i msg s) i Finished"
    using len by (simp add: onUploadError_def in_phase_def)
  have frame: "calls (onUploadError i msg s) = calls s"
    "created (onUploadError i msg s) = created s"
    "\<not> uploading (onUploadError i msg s)"
    "uploadMessage (onUploadError i msg s) = ''Upload failed: '' @ msg"
    "packageName (onUploadError i msg s) = packageName s"
    "packageDescription (onUploadError i msg s) = packageDescription s"
    "packageVersion (onUploadError i msg s) = packageVersion s"
    "packageFile (onUploadError i msg s) = packageFile s"
    by (simp_all add: onUploadError_def)
  have en: "\<not> controls_disabled (onUploadError i msg s)"
    using rdy by (simp add: controls_disabled_def onUploadError_def)
  show ?thesis
    unfolding Let_def st
    using cap frame en fin finished_task_events [OF fin]
    by (simp add: captured_def)
qed

theorem upload_failure_preserves_form_witness:
  "reachable (state_of session_uploading)
   \<and> in_phase (state_of session_uploading) 0 Uploading
   \<and> packageName (step (UploadFailed 0 ''quota exceeded'') (state_of session_uploading)) =
       ''MyCoolApp''
   \<and> packageFile (step (UploadFailed 0 ''quota exceeded'') (state_of session_uploading)) =
       Some demo_file
   \<and> calls (step (UploadFailed 0 ''quota exceeded'') (state_of session_uploading)) =
       calls (state_of session_uploading)
   \<and> uploadMessage (step (UploadFailed 0 ''quota exceeded'') (state_of session_uploading)) =
       ''Upload failed: quota exceeded''"
proof -
  have ph: "in_phase (state_of session_uploading) 0 Uploading" by code_simp
  have n: "packageName (state_of session_uploading) = ''MyCoolApp''" by code_simp
  have f: "packageFile (state_of session_uploading) = Some demo_file" by code_simp
  show ?thesis
    using upload_failure_preserves_form
      [OF reachable_uploading ph, of "''quota exceeded''"]
      reachable_uploading ph n f
    by (simp add: Let_def)
qed


lemma reachable_committing: "reachable (state_of session_committing)"
  by (rule reachable_state_of) code_simp

text \<open>
  C7. When the metadata write fails after the upload has succeeded, the step creates no
  record and issues no call, the task is finished and later events for it are ignored.
  The four form fields are not cleared: they keep the submitted, non-empty values. The
  message is the one for a failed save followed by the error's text, and it differs
  from every message of a failed upload.
\<close>

theorem commit_failure_keeps_form:
  "reachable s \<Longrightarrow> in_phase s i (Committing d) \<Longrightarrow>
     (let t = tasks s ! i; s' = step (AddDocResult i (Inl msg)) s
      in created s' = created s \<and> calls s' = calls s
         \<and> in_phase s' i Finished
         \<and> (\<forall>r. step (AddDocResult i r) s' = s')
         \<and> (\<forall>r. step (DownloadURLResult i r) s' = s')
         \<and> packageName s' = t_packageName t \<and> packageName s' \<noteq> []
         \<and> packageDescription s' = t_packageDescription t \<and> packageDescription s' \<noteq> []
         \<and> packageVersion s' = t_packageVersion t \<and> packageVersion s' \<noteq> []
         \<and> packageFile s' = Some (t_file t)
         \<and> uploadMessage s' = ''Failed to save package info: '' @ msg
         \<and> (\<forall>m. uploadMessage s' \<noteq> ''Upload failed: '' @ m)
         \<and> (\<forall>m. uploadMessage s' \<noteq> uploadMessage (onUploadError i m s)))"
proof -
  assume r: "reachable s" and ph: "in_phase s i (Committing d)"
  have cap: "captured s (tasks s ! i)" and len: "i < length (tasks s)"
    using reachable_active [OF r ph] by simp_all
  have hd: "handler (AddDocResult i (Inl msg)) s = catch_finally i msg s"
    using ph by (simp add: in_phase_def onAddDoc_def)
  have "step (AddDocResult i (Inl msg)) s = handler (AddDocResult i (Inl msg)) s"
    by (rule step_handler) (simp_all only: hd, simp_all add: catch_finally_def)
  then have st: "step (AddDocResult i (Inl msg)) s = catch_finally i msg s"
    by (simp only: hd)
  have fin: "in_phase (catch_finally i msg s) i Finished"
    using len by (simp add: catch_finally_def in_phase_def)
  have frame: "calls (catch_finally i msg s) = calls s"
    "created (catch_finally i msg s) = created s"
    "uploadMessage (catch_finally i msg s) = ''Failed to save package info: '' @ msg"
    "packageName (catch_finally i msg s) = packageName s"
    "packageDescription (catch_finally i msg s) = packageDescription s"
    "packageVersion (catch_finally i msg s) = packageVersion s"
    "packageFile (catch_finally i msg s) = packageFile s"
    by (simp_all add: catch_finally_def)
  have msg: "uploadMessage (onUploadError i m s) = ''Upload failed: '' @ m" for m
    by (simp add: onUploadError_def)
  show ?thesis
    unfolding Let_def st
    using cap frame fin finished_task_events [OF fin] msg
    by (simp add: captured_def)
qed

theorem commit_failure_keeps_form_witness:
  "reachable (state_of session_committing)
   \<and> in_phase (state_of session_committing) 0
        (Committing (package_doc_of (tasks (state_of session_committing) ! 0)
                       ''https://host/f''))
   \<and> created (step (AddDocResult 0 (Inl ''unavailable'')) (state_of session_committing)) = []
   \<and> packageName (step (AddDocResult 0 (Inl ''unavailable'')) (state_of session_committing))
       = ''MyCoolApp''
   \<and> uploadMessage (step (AddDocResult 0 (Inl ''unavailable'')) (state_of session_committing))
       = ''Failed to save package info: unavailable''"
proof -
  let ?d = "package_doc_of (tasks (state_of session_committing) ! 0) ''https://host/f''"
  have ph: "in_phase (state_of session_committing) 0 (Committing ?d)" by code_simp
  have c: "created (state_of session_committing) = []" by code_simp
  have n: "t_packageName (tasks (state_of session_committing) ! 0) = ''MyCoolApp''"
    by code_simp
  show ?thesis
    using commit_failure_keeps_form [OF reachable_committing ph, of "''unavailable''"]
      reachable_committing ph c n
    by (simp add: Let_def)
qed


section \<open>Publish success\<close>

lemma nth_phase_update_userId:
  "i < length ts \<Longrightarrow>
   t_userId (ts[j := (ts ! j)\<lparr>t_phase := p\<rparr>] ! i) = t_userId (ts ! i)"
  by (cases "i = j") simp_all

lemma handler_task_userId:
  "i < length (tasks s) \<Longrightarrow> t_userId (tasks (handler e s) ! i) = t_userId (tasks s ! i)"
proof (cases e)
  case Submit
  then show "i < length (tasks s) \<Longrightarrow> ?thesis"
    by (simp add: handleUpload_def reject_def Let_def nth_append split: option.splits)
next
  case (UploadFailed j m)
  then show "i < length (tasks s) \<Longrightarrow> ?thesis"
    by (simp add: onUploadError_def nth_phase_update_userId)
next
  case (UploadComplete j)
  then show "i < length (tasks s) \<Longrightarrow> ?thesis"
    by (simp add: onUploadComplete_def Let_def nth_phase_update_userId)
next
  case (DownloadURLResult j r)
  then show "i < length (tasks s) \<Longrightarrow> ?thesis"
    by (simp add: onDownloadURL_def catch_finally_def Let_def nth_phase_update_userId
        split: sum.splits)
next
  case (AddDocResult j r)
  then show "i < length (tasks s) \<Longrightarrow> ?thesis"
    by (simp add: onAddDoc_def catch_finally_def nth_phase_update_userId
        split: sum.splits phase.splits)
qed (simp_all add: mount_def onAuthStateChanged_def onProgress_def Let_def
      split: option.splits)

lemma handler_tasks_length: "length (tasks s) \<le> length (tasks (handler e s))"
  by (cases e)
    (simp_all add: mount_def onAuthStateChanged_def onProgress_def onUploadError_def
      onUploadComplete_def onDownloadURL_def onAddDoc_def catch_finally_def
      handleUpload_def reject_def Let_def
      split: option.splits sum.splits phase.splits)

lemma run_Cons: "run (e # evs) s = run evs (step e s)"
  by (simp add: run_def)

lemma run_task_userId:
  "i < length (tasks s) \<Longrightarrow>
   i < length (tasks (run evs s)) \<and> t_userId (tasks (run evs s) ! i) = t_userId (tasks s ! i)"
proof (induction evs arbitrary: s)
  case Nil
  then show ?case by (simp add: run_def)
next
  case (Cons e evs)
  have len: "i < length (tasks (step e s))"
    using Cons.prems handler_tasks_length [of s e] by (simp add: step_def)
  have "t_userId (tasks (step e s) ! i) = t_userId (tasks s ! i)"
    using Cons.prems by (simp add: step_def handler_task_userId)
  then show ?case using Cons.IH [OF len] by (simp add: run_Cons)
qed

lemma uploader_is_current_identity:
  assumes "tasks (step Submit s) = tasks s @ [t]"
    and "\<forall>e\<in>set evs. \<not> is_auth_notification e"
  shows "userId (run evs (step Submit s)) =
           Some (t_userId (tasks (run evs (step Submit s)) ! length (tasks s)))"
proof -
  obtain f uid where u: "userId s = Some uid" and t: "t = new_task s f uid"
    using submit_new_task [OF assms(1)] by blast
  have "length (tasks s) < length (tasks (step Submit s))"
    by (simp add: assms(1))
  then have "t_userId (tasks (run evs (step Submit s)) ! length (tasks s)) =
      t_userId (tasks (step Submit s) ! length (tasks s))"
    using run_task_userId by blast
  also have "\<dots> = uid" by (simp add: assms(1) t new_task_def)
  finally have a: "t_userId (tasks (run evs (step Submit s)) ! length (tasks s)) = uid" .
  have "userId (run evs (step Submit s)) = userId (step Submit s)"
    using assms(2) by (rule run_userId)
  also have "\<dots> = userId s"
    by (simp add: step_def handler_userId)
  finally show ?thesis using u a by simp
qed

text \<open>
  C9, as the code has it. The completion callback uses the user id it closed over when
  the form was submitted. When the session is ready with a fallback id, a publish is
  submitted, and the sign-in then reports the user before the upload completes, the
  record is written with the fallback id as uploader although the session's user id is
  the signed-in user's by then.
\<close>

theorem uploader_id_from_submission:
  "list_all wf_event session_late_sign_in
   \<and> userId (state_of session_late_sign_in) = Some ''user-1''
   \<and> last (calls (state_of session_late_sign_in)) =
       AddDoc ''artifacts/default-app-id/public/data/packages''
         \<lparr> doc_name = ''mycoolapp'', doc_displayName = ''MyCoolApp'',
           doc_description = ''demo'', doc_version = ''1.0.0'',
           doc_fileName = ''mycoolapp_v1.0.0.py'', doc_fileUrl = ''https://host/f'',
           doc_uploaderId = ''0b9f-fallback'', doc_uploadTime = ServerTimestamp \<rparr>"
  by code_simp

text \<open>
  C9, amended. A task takes the name, description, version and user id of the form at
  submission, and no event changes the user id it holds; as long as no auth-state
  notification arrives after the submission, this is the user id of the session at every
  later moment of the transaction. When the download URL of a finished upload arrives,
  exactly one call is issued, an \<^verbatim>\<open>addDoc\<close> on the packages collection whose record has
  the lowercased submitted name as name, the submitted name as display name, the
  submitted description and version, the derived file name, the download URL and, as
  uploader, the user id the publish was submitted with. When this write succeeds, the
  record counts as created, the four form fields are cleared, the uploading flag is
  cleared and the progress is zero, and no further call is issued.
\<close>

theorem publish_success_commits_and_clears:
  "reachable s \<Longrightarrow>
     (\<forall>t. tasks (step Submit s) = tasks s @ [t] \<longrightarrow>
        t_packageName t = packageName s \<and> t_packageDescription t = packageDescription s
        \<and> t_packageVersion t = packageVersion s \<and> userId s = Some (t_userId t))
   \<and> (i < length (tasks s) \<longrightarrow>
        t_userId (tasks (step e s) ! i) = t_userId (tasks s ! i))
   \<and> (\<forall>t. tasks (step Submit s) = tasks s @ [t] \<longrightarrow>
        (\<forall>ev\<in>set evs. \<not> is_auth_notification ev) \<longrightarrow>
        userId (run evs (step Submit s)) =
          Some (t_userId (tasks (run evs (step Submit s)) ! length (tasks s))))
   \<and> (in_phase s i GettingURL \<longrightarrow>
        (let t = tasks s ! i;
             d = \<lparr> doc_name = toLowerCase (packageName s),
                   doc_displayName = packageName s,
                   doc_description = packageDescription s,
                   doc_version = packageVersion s,
                   doc_fileName =
                     fileNameOf (packageName s) (packageVersion s) (file_name (t_file t)),
                   doc_fileUrl = url,
                   doc_uploaderId = t_userId t,
                   doc_uploadTime = ServerTimestamp \<rparr>;
             s1 = step (DownloadURLResult i (Inr url)) s
         in calls s1 = calls s @ [AddDoc (packages_collection (appId s)) d]
            \<and> in_phase s1 i (Committing d) \<and> created s1 = created s
            \<and> packageName s1 = packageName s \<and> packageFile s1 = Some (t_file t)))
   \<and> (in_phase s i (Committing c) \<longrightarrow>
        (let s2 = step (AddDocResult i (Inr ())) s
         in packageName s2 = [] \<and> packageDescription s2 = [] \<and> packageVersion s2 = []
            \<and> packageFile s2 = None \<and> \<not> uploading s2 \<and> uploadProgress s2 = Num 0
            \<and> calls s2 = calls s \<and> created s2 = created s @ [c]
            \<and> in_phase s2 i Finished
            \<and> (\<exists>u. c = package_doc_of (tasks s ! i) u)))"
proof -
  assume r: "reachable s"
  have p1: "\<forall>t. tasks (step Submit s) = tasks s @ [t] \<longrightarrow>
        t_packageName t = packageName s \<and> t_packageDescription t = packageDescription s
        \<and> t_packageVersion t = packageVersion s \<and> userId s = Some (t_userId t)"
  proof (intro allI impI)
    fix t
    assume "tasks (step Submit s) = tasks s @ [t]"
    then obtain f uid where "userId s = Some uid" and "t = new_task s f uid"
      using submit_new_task by blast
    then show "t_packageName t = packageName s
        \<and> t_packageDescription t = packageDescription s
        \<and> t_packageVersion t = packageVersion s \<and> userId s = Some (t_userId t)"
      by (simp add: new_task_def)
  qed
  have p2: "i < length (tasks s) \<longrightarrow>
        t_userId (tasks (step e s) ! i) = t_userId (tasks s ! i)"
    by (simp add: step_def handler_task_userId)
  have p3: "let t = tasks s ! i;
             d = \<lparr> doc_name = toLowerCase (packageName s),
                   doc_displayName = packageName s,
                   doc_description = packageDescription s,
                   doc_version = packageVersion s,
                   doc_fileName =
                     fileNameOf (packageName s) (packageVersion s) (file_name (t_file t)),
                   doc_fileUrl = url,
                   doc_uploaderId = t_userId t,
                   doc_uploadTime = ServerTimestamp \<rparr>;
             s1 = step (DownloadURLResult i (Inr url)) s
         in calls s1 = calls s @ [AddDoc (packages_collection (appId s)) d]
            \<and> in_phase s1 i (Committing d) \<and> created s1 = created s
            \<and> packageName s1 = packageName s \<and> packageFile s1 = Some (t_file t)"
    if ph: "in_phase s i GettingURL"
  proof -
    have cap: "captured s (tasks s ! i)" and len: "i < length (tasks s)"
      using reachable_active [OF r ph] by simp_all
    let ?t = "tasks s ! i"
    let ?d = "package_doc_of ?t url"
    let ?s1 = "set_phase i (Committing ?d)
       (s\<lparr>uploadMessage := ''Upload successful. Saving package info...'',
          calls := calls s @ [AddDoc (packages_collection (t_appId ?t)) ?d]\<rparr>)"
    have hd: "handler (DownloadURLResult i (Inr url)) s = ?s1"
      using ph cap by (auto simp add: onDownloadURL_def Let_def captured_def)
    have "step (DownloadURLResult i (Inr url)) s = handler (DownloadURLResult i (Inr url)) s"
      by (rule step_handler) (simp_all only: hd, simp_all)
    then have st: "step (DownloadURLResult i (Inr url)) s = ?s1" by (simp only: hd)
    have ph1: "in_phase ?s1 i (Committing ?d)"
      using len by (simp add: in_phase_def)
    show ?thesis
      unfolding Let_def st
      using cap ph1 by (simp add: captured_def package_doc_of_def)
  qed
  have p4: "let s2 = step (AddDocResult i (Inr ())) s
         in packageName s2 = [] \<and> packageDescription s2 = [] \<and> packageVersion s2 = []
            \<and> packageFile s2 = None \<and> \<not> uploading s2 \<and> uploadProgress s2 = Num 0
            \<and> calls s2 = calls s \<and> created s2 = created s @ [c]
            \<and> in_phase s2 i Finished
            \<and> (\<exists>u. c = package_doc_of (tasks s ! i) u)"
    if ph: "in_phase s i (Committing c)"
  proof -
    have cap: "captured s (tasks s ! i)" and len: "i < length (tasks s)"
      using reachable_active [OF r ph] by simp_all
    have hd: "handler (AddDocResult i (Inr ())) s = onAddDoc i c (Inr ()) s"
      using ph by (simp add: in_phase_def)
    have "step (AddDocResult i (Inr ())) s = handler (AddDocResult i (Inr ())) s"
      by (rule step_handler) (simp_all only: hd, simp_all add: onAddDoc_def)
    then have st: "step (AddDocResult i (Inr ())) s = onAddDoc i c (Inr ()) s"
      by (simp only: hd)
    have doc: "\<exists>u. c = package_doc_of (tasks s ! i) u"
      using cap ph by (simp add: captured_def in_phase_def)
    have fin: "in_phase (onAddDoc i c (Inr ()) s) i Finished"
      using len by (simp add: onAddDoc_def in_phase_def)
    show ?thesis
      unfolding Let_def st
      using doc fin by (simp add: onAddDoc_def)
  qed
  have p5: "\<forall>t. tasks (step Submit s) = tasks s @ [t] \<longrightarrow>
        (\<forall>ev\<in>set evs. \<not> is_auth_notification ev) \<longrightarrow>
        userId (run evs (step Submit s)) =
          Some (t_userId (tasks (run evs (step Submit s)) ! length (tasks s)))"
    using uploader_is_current_identity by blast
  show ?thesis
    using p1 p2 p3 p4 p5 by blast
qed


theorem publish_success_commits_and_clears_witness:
  "reachable (state_of session_getting_url)
   \<and> in_phase (state_of session_getting_url) 0 GettingURL
   \<and> calls (step (DownloadURLResult 0 (Inr ''https://host/f''))
              (state_of session_getting_url)) =
       calls (state_of session_getting_url) @
         [AddDoc ''artifacts/default-app-id/public/data/packages''
            \<lparr> doc_name = ''mycoolapp'', doc_displayName = ''MyCoolApp'',
              doc_description = ''demo'', doc_version = ''1.0.0'',
              doc_fileName = ''mycoolapp_v1.0.0.py'', doc_fileUrl = ''https://host/f'',
              doc_uploaderId = ''user-1'', doc_uploadTime = ServerTimestamp \<rparr>]
   \<and> userId (run [UploadProgress 0 1 3 ''33'', UploadComplete 0]
               (step Submit (state_of session_form_filled))) = Some ''user-1''
   \<and> t_userId (tasks (run [UploadProgress 0 1 3 ''33'', UploadComplete 0]
                        (step Submit (state_of session_form_filled))) ! 0) = ''user-1''
   \<and> reachable (state_of session_committing)
   \<and> packageName (step (AddDocResult 0 (Inr ())) (state_of session_committing)) = []
   \<and> packageFile (step (AddDocResult 0 (Inr ())) (state_of session_committing)) = None
   \<and> \<not> uploading (step (AddDocResult 0 (Inr ())) (state_of session_committing))
   \<and> created (step (AddDocResult 0 (Inr ())) (state_of session_committing)) =
       [package_doc_of (tasks (state_of session_committing) ! 0) ''https://host/f'']"
proof -
  let ?g = "state_of session_getting_url"
  let ?c = "state_of session_committing"
  let ?d = "package_doc_of (tasks ?c ! 0) ''https://host/f''"
  have rg: "reachable ?g" by (rule reachable_state_of) code_simp
  have pg: "in_phase ?g 0 GettingURL" by code_simp
  have vals: "packageName ?g = ''MyCoolApp''" "packageDescription ?g = ''demo''"
    "packageVersion ?g = ''1.0.0''" "t_userId (tasks ?g ! 0) = ''user-1''"
    "file_name (t_file (tasks ?g ! 0)) = ''demo.py''" "appId ?g = ''default-app-id''"
    by code_simp+
  have ev: "toLowerCase ''MyCoolApp'' = ''mycoolapp''"
    "fileNameOf ''MyCoolApp'' ''1.0.0'' ''demo.py'' = ''mycoolapp_v1.0.0.py''"
    "packages_collection ''default-app-id'' = ''artifacts/default-app-id/public/data/packages''"
    by code_simp+
  have a: "calls (step (DownloadURLResult 0 (Inr ''https://host/f'')) ?g) =
       calls ?g @
         [AddDoc ''artifacts/default-app-id/public/data/packages''
            \<lparr> doc_name = ''mycoolapp'', doc_displayName = ''MyCoolApp'',
              doc_description = ''demo'', doc_version = ''1.0.0'',
              doc_fileName = ''mycoolapp_v1.0.0.py'', doc_fileUrl = ''https://host/f'',
              doc_uploaderId = ''user-1'', doc_uploadTime = ServerTimestamp \<rparr>]"
    using publish_success_commits_and_clears
      [OF rg, of 0 "Mount None" "[]" "''https://host/f''" ?d] pg
    by (simp add: Let_def vals ev)
  have pc: "in_phase ?c 0 (Committing ?d)" by code_simp
  have cr: "created ?c = []" by code_simp
  have b: "packageName (step (AddDocResult 0 (Inr ())) ?c) = []
     \<and> packageFile (step (AddDocResult 0 (Inr ())) ?c) = None
     \<and> \<not> uploading (step (AddDocResult 0 (Inr ())) ?c)
     \<and> created (step (AddDocResult 0 (Inr ())) ?c) = [?d]"
    using publish_success_commits_and_clears
      [OF reachable_committing, of 0 "Mount None" "[]" "''https://host/f''" ?d] pc cr
    by (simp add: Let_def)
  let ?f = "state_of session_form_filled"
  let ?evs = "[UploadProgress 0 1 3 ''33'', UploadComplete 0]"
  have tk: "tasks (step Submit ?f) = tasks ?f @ [last (tasks (step Submit ?f))]"
    by code_simp
  have na: "\<forall>ev\<in>set ?evs. \<not> is_auth_notification ev" by simp
  have l0: "length (tasks ?f) = 0" by code_simp
  have u: "userId (run ?evs (step Submit ?f)) = Some ''user-1''" by code_simp
  have "userId (run ?evs (step Submit ?f)) =
      Some (t_userId (tasks (run ?evs (step Submit ?f)) ! length (tasks ?f)))"
    using publish_success_commits_and_clears
      [OF reachable_form_filled, of 0 "Mount None" ?evs "''https://host/f''" ?d] tk na
    by blast
  then have c: "t_userId (tasks (run ?evs (step Submit ?f)) ! 0) = ''user-1''"
    using u by (simp add: l0)
  show ?thesis using rg pg a u c reachable_committing b by blast
qed

section \<open>Files without a dot in their name\<close>

text \<open>
  C10. When the name of the submitted file contains no dot, the derived extension is the
  whole file name, so the destination file name ends with a dot followed by the whole
  file name; the file demo with the name App and the version 1 gives app_v1.demo.
  \<open>handleUpload\<close> does not reject such a file: with the other fields filled and the user
  id present it starts the upload to that destination.
\<close>

theorem extension_without_dot:
  "CHR ''.'' \<notin> set (file_name f) \<Longrightarrow>
     fileExtensionOf (file_name f) = file_name f
   \<and> fileNameOf pname version (file_name f) =
       sanitizedPackageName pname @ ''_v'' @ version @ ''.'' @ file_name f
   \<and> fileNameOf ''App'' ''1'' ''demo'' = ''app_v1.demo''
   \<and> (reachable s \<longrightarrow> packageFile s = Some f \<longrightarrow> packageName s \<noteq> [] \<longrightarrow>
        packageDescription s \<noteq> [] \<longrightarrow> packageVersion s \<noteq> [] \<longrightarrow> userId s \<noteq> None \<longrightarrow>
        calls (handleUpload s) = calls s @
          [UploadBytesResumable
             (storage_path (appId s)
                (sanitizedPackageName (packageName s) @ ''_v'' @ packageVersion s @ ''.'' @
                   file_name f)) f])"
proof -
  assume nodot: "CHR ''.'' \<notin> set (file_name f)"
  have ext: "fileExtensionOf (file_name f) = file_name f"
    using nodot by (simp add: fileExtensionOf_def pop_def split_on_no_sep)
  have fn: "fileNameOf pname version (file_name f) =
       sanitizedPackageName pname @ ''_v'' @ version @ ''.'' @ file_name f" for pname version
    by (simp add: fileNameOf_def ext)
  have ex: "fileNameOf ''App'' ''1'' ''demo'' = ''app_v1.demo''" by code_simp
  have up: "calls (handleUpload s) = calls s @
          [UploadBytesResumable
             (storage_path (appId s)
                (sanitizedPackageName (packageName s) @ ''_v'' @ packageVersion s @ ''.'' @
                   file_name f)) f]"
    if r: "reachable s" and f: "packageFile s = Some f" and ne: "packageName s \<noteq> []"
      "packageDescription s \<noteq> []" "packageVersion s \<noteq> []" and u: "userId s \<noteq> None"
  proof -
    have ie: "inv_env s" using r by (simp add: reachable_inv)
    obtain uid where uid: "userId s = Some uid" using u by auto
    have "uid \<noteq> []" "auth s \<noteq> None" "storage s \<noteq> None"
      using ie uid by (auto simp add: inv_env_def)
    then show ?thesis
      using f ne uid
      by (auto simp add: handleUpload_def Let_def new_task_def fn)
  qed
  show ?thesis using ext fn ex up by blast
qed

theorem extension_without_dot_witness:
  "CHR ''.'' \<notin> set (file_name plain_file)
   \<and> fileExtensionOf ''demo'' = ''demo''
   \<and> reachable (state_of session_plain_file)
   \<and> calls (handleUpload (state_of session_plain_file)) =
       calls (state_of session_plain_file) @
         [UploadBytesResumable ''artifacts/default-app-id/packages/app_v1.demo'' plain_file]"
proof -
  let ?s = "state_of session_plain_file"
  have nd: "CHR ''.'' \<notin> set (file_name plain_file)" by code_simp
  have fnm: "file_name plain_file = ''demo''" by code_simp
  have r: "reachable ?s" by (rule reachable_state_of) code_simp
  have h: "packageFile ?s = Some plain_file" "packageName ?s = ''App''"
    "packageDescription ?s = ''d''" "packageVersion ?s = ''1''"
    "userId ?s = Some ''user-1''" "appId ?s = ''default-app-id''"
    by code_simp+
  have ev: "storage_path ''default-app-id'' (sanitizedPackageName ''App'' @ ''_v1.demo'') =
      ''artifacts/default-app-id/packages/app_v1.demo''"
    by code_simp
  note inst = extension_without_dot [OF nd, of "''App''" "''1''" ?s]
  have a: "fileExtensionOf ''demo'' = ''demo''" using inst by (simp add: fnm)
  have b: "calls (handleUpload ?s) = calls ?s @
         [UploadBytesResumable ''artifacts/default-app-id/packages/app_v1.demo'' plain_file]"
    using inst r h ev by (simp add: fnm)
  show ?thesis using nd a r b by blast
qed

end
